theory Spec2Isabelle
  imports Complex_Main "HOL-Library.Word"
begin

section \<open>JavaScript numbers\<close>

text \<open>
  The simulation computes with JavaScript numbers and stores its field in
  \<^verbatim>\<open>Float32Array\<close>s. A number is modelled as a finite real, one of the
  two infinities, or NaN. The special values follow IEEE 754 as JavaScript
  exposes it (\<open>Infinity - Infinity\<close>, \<open>0 * Infinity\<close> and \<open>0 / 0\<close> are NaN,
  every comparison with NaN is false, and so on). On finite operands the
  field arithmetic is the exact real one: rounding to 53 (or, when a value
  is stored into a \<^verbatim>\<open>Float32Array\<close>, 24) significant bits, overflow of a
  finite result to an infinity, and the sign of zero are not modelled
  there. The theorems below are stated so that they do not lean on that
  idealisation beyond the concrete values they evaluate. Where the program
  takes a count from a product or a quotient (the grid dimensions in the
  constructor, the number of sub-steps in \<^verbatim>\<open>step\<close>, the radius in cells in
  \<^verbatim>\<open>applyImpulse\<close>), which decides how often a loop runs, each operation is
  rounded to a double by \<open>dbl\<close> below.
\<close>

datatype number = Fin real | PInf | NInf | NaN

fun negN :: "number \<Rightarrow> number" where
  "negN (Fin a) = Fin (- a)"
| "negN PInf = NInf"
| "negN NInf = PInf"
| "negN NaN = NaN"

fun addN :: "number \<Rightarrow> number \<Rightarrow> number" where
  "addN NaN b = NaN"
| "addN a NaN = NaN"
| "addN (Fin a) (Fin b) = Fin (a + b)"
| "addN (Fin a) b = b"
| "addN a (Fin b) = a"
| "addN PInf PInf = PInf"
| "addN NInf NInf = NInf"
| "addN PInf NInf = NaN"
| "addN NInf PInf = NaN"

definition subN :: "number \<Rightarrow> number \<Rightarrow> number" where
  "subN a b = addN a (negN b)"

text \<open>The sign of an infinite product: positive, negative, or NaN for a zero factor.\<close>

definition infTimes :: "bool \<Rightarrow> real \<Rightarrow> number" where
  "infTimes pos a =
     (if a = 0 then NaN else if (0 < a) = pos then PInf else NInf)"

fun mulN :: "number \<Rightarrow> number \<Rightarrow> number" where
  "mulN NaN b = NaN"
| "mulN a NaN = NaN"
| "mulN (Fin a) (Fin b) = Fin (a * b)"
| "mulN (Fin a) PInf = infTimes True a"
| "mulN (Fin a) NInf = infTimes False a"
| "mulN PInf (Fin b) = infTimes True b"
| "mulN NInf (Fin b) = infTimes False b"
| "mulN PInf PInf = PInf"
| "mulN NInf NInf = PInf"
| "mulN PInf NInf = NInf"
| "mulN NInf PInf = NInf"

text \<open>
  Division. A zero divisor is taken as \<open>+0\<close>: \<open>a / 0\<close> is \<open>Infinity\<close>,
  \<open>-Infinity\<close> or NaN by the sign of \<open>a\<close>.
\<close>

fun divN :: "number \<Rightarrow> number \<Rightarrow> number" where
  "divN NaN b = NaN"
| "divN a NaN = NaN"
| "divN (Fin a) (Fin b) =
     (if b = 0 then (if a = 0 then NaN else if 0 < a then PInf else NInf)
      else Fin (a / b))"
| "divN (Fin a) b = Fin 0"
| "divN PInf (Fin b) = (if 0 \<le> b then PInf else NInf)"
| "divN NInf (Fin b) = (if 0 \<le> b then NInf else PInf)"
| "divN a b = NaN"

fun ltN :: "number \<Rightarrow> number \<Rightarrow> bool" where
  "ltN NaN b = False"
| "ltN a NaN = False"
| "ltN (Fin a) (Fin b) = (a < b)"
| "ltN a PInf = (a \<noteq> PInf)"
| "ltN NInf b = (b \<noteq> NInf)"
| "ltN a b = False"

definition leN :: "number \<Rightarrow> number \<Rightarrow> bool" where
  "leN a b = (a \<noteq> NaN \<and> b \<noteq> NaN \<and> (a = b \<or> ltN a b))"

definition gtN :: "number \<Rightarrow> number \<Rightarrow> bool" where
  "gtN a b = ltN b a"

definition geN :: "number \<Rightarrow> number \<Rightarrow> bool" where
  "geN a b = leN b a"

text \<open>\<^verbatim>\<open>isFinite\<close>, and truthiness of a number (\<open>0\<close> and NaN are falsy).\<close>

fun isFiniteN :: "number \<Rightarrow> bool" where
  "isFiniteN (Fin a) = True"
| "isFiniteN a = False"

fun truthy :: "number \<Rightarrow> bool" where
  "truthy (Fin a) = (a \<noteq> 0)"
| "truthy NaN = False"
| "truthy a = True"

text \<open>\<^verbatim>\<open>Math.ceil\<close>, \<^verbatim>\<open>Math.floor\<close>, \<^verbatim>\<open>Math.round\<close> (halves go up),
  \<^verbatim>\<open>Math.abs\<close>, \<^verbatim>\<open>Math.max\<close>, \<^verbatim>\<open>Math.min\<close>, \<^verbatim>\<open>Math.sqrt\<close>, \<^verbatim>\<open>Math.sin\<close>,
  \<^verbatim>\<open>Math.cos\<close> and \<^verbatim>\<open>Math.exp\<close>.\<close>

fun ceilN :: "number \<Rightarrow> number" where
  "ceilN (Fin a) = Fin (of_int \<lceil>a\<rceil>)"
| "ceilN a = a"

fun floorN :: "number \<Rightarrow> number" where
  "floorN (Fin a) = Fin (of_int \<lfloor>a\<rfloor>)"
| "floorN a = a"

fun roundN :: "number \<Rightarrow> number" where
  "roundN (Fin a) = Fin (of_int \<lfloor>a + 1 / 2\<rfloor>)"
| "roundN a = a"

fun absN :: "number \<Rightarrow> number" where
  "absN (Fin a) = Fin \<bar>a\<bar>"
| "absN NaN = NaN"
| "absN a = PInf"

definition maxN :: "number \<Rightarrow> number \<Rightarrow> number" where
  "maxN a b = (if a = NaN \<or> b = NaN then NaN else if ltN a b then b else a)"

definition minN :: "number \<Rightarrow> number \<Rightarrow> number" where
  "minN a b = (if a = NaN \<or> b = NaN then NaN else if ltN b a then b else a)"

fun sqrtN :: "number \<Rightarrow> number" where
  "sqrtN (Fin a) = (if a < 0 then NaN else Fin (sqrt a))"
| "sqrtN PInf = PInf"
| "sqrtN a = NaN"

fun sinN :: "number \<Rightarrow> number" where
  "sinN (Fin a) = Fin (sin a)"
| "sinN a = NaN"

fun cosN :: "number \<Rightarrow> number" where
  "cosN (Fin a) = Fin (cos a)"
| "cosN a = NaN"

fun expN :: "number \<Rightarrow> number" where
  "expN (Fin a) = Fin (exp a)"
| "expN PInf = PInf"
| "expN NInf = Fin 0"
| "expN NaN = NaN"

text \<open>
  \<open>v | 0\<close>: the operand is converted to a signed 32-bit integer. NaN and the
  infinities give 0; a finite value is truncated towards zero and wrapped
  modulo \<open>2^32\<close> into \<open>[-2^31, 2^31)\<close>.
\<close>

definition truncR :: "real \<Rightarrow> int" where
  "truncR a = (if 0 \<le> a then \<lfloor>a\<rfloor> else \<lceil>a\<rceil>)"

fun toInt32 :: "number \<Rightarrow> int" where
  "toInt32 (Fin a) = (truncR a + 2 ^ 31) mod 2 ^ 32 - 2 ^ 31"
| "toInt32 a = 0"

text \<open>An integer of the program (a grid dimension, a loop counter) as a number.\<close>

definition numI :: "int \<Rightarrow> number" where
  "numI i = Fin (of_int i)"

subsection \<open>Rounding to a double\<close>

text \<open>
  IEEE 754 binary64, round to nearest, ties to even. A finite double is
  \<open>m * 2^e\<close> with \<open>|m| < 2^53\<close> and \<open>-1074 \<le> e \<le> 971\<close>. A real \<open>r\<close>
  other than \<open>0\<close> lies in the binade \<open>2^L \<le> |r| < 2^(L + 1)\<close>, where the
  doubles are the multiples of \<open>2^(L - 52)\<close> (of \<open>2^-1074\<close> below
  \<open>2^-1022\<close>, the subnormal range); \<open>r\<close> is rounded to the nearest
  multiple, to the even one of two equally near, and a result of magnitude
  \<open>2^1024\<close> or more is an infinity. The exponent \<open>L\<close> of a positive real
  is found by halving or doubling it into \<open>[1, 2)\<close>.
\<close>

function binade :: "real \<Rightarrow> int" where
  "binade r =
     (if r \<le> 0 then 0
      else if 2 \<le> r then binade (r / 2) + 1
      else if r < 1 then binade (r * 2) - 1
      else 0)"
  by pat_completeness auto
termination
proof (relation "measure (\<lambda>r. if r \<le> 0 then 0 else nat \<bar>\<lfloor>log 2 r\<rfloor>\<bar>)")
  show "wf (measure (\<lambda>r. if r \<le> 0 then 0 else nat \<bar>\<lfloor>log 2 r\<rfloor>\<bar>))" by simp
next
  fix r :: real
  assume a: "\<not> r \<le> 0" "2 \<le> r"
  have "log 2 (r / 2) = log 2 r - 1" using a by (simp add: log_divide)
  then have "\<lfloor>log 2 (r / 2)\<rfloor> = \<lfloor>log 2 r\<rfloor> - 1" by simp
  moreover have "1 \<le> log 2 r" using a by (simp add: le_log_iff)
  then have "1 \<le> \<lfloor>log 2 r\<rfloor>" by linarith
  ultimately have "nat \<bar>\<lfloor>log 2 (r / 2)\<rfloor>\<bar> < nat \<bar>\<lfloor>log 2 r\<rfloor>\<bar>" by linarith
  then show "(r / 2, r) \<in> measure (\<lambda>r. if r \<le> 0 then 0 else nat \<bar>\<lfloor>log 2 r\<rfloor>\<bar>)"
    using a by simp
next
  fix r :: real
  assume a: "\<not> r \<le> 0" "\<not> 2 \<le> r" "r < 1"
  have "log 2 (r * 2) = log 2 r + 1" using a by (simp add: log_mult)
  then have "\<lfloor>log 2 (r * 2)\<rfloor> = \<lfloor>log 2 r\<rfloor> + 1" by simp
  moreover have "log 2 r < 0" using a by simp
  then have "\<lfloor>log 2 r\<rfloor> \<le> - 1" by linarith
  ultimately have "nat \<bar>\<lfloor>log 2 (r * 2)\<rfloor>\<bar> < nat \<bar>\<lfloor>log 2 r\<rfloor>\<bar>" by linarith
  then show "(r * 2, r) \<in> measure (\<lambda>r. if r \<le> 0 then 0 else nat \<bar>\<lfloor>log 2 r\<rfloor>\<bar>)"
    using a by simp
qed

declare binade.simps [simp del]

definition roundHalfEven :: "real \<Rightarrow> int" where
  "roundHalfEven q =
     (let f = \<lfloor>q\<rfloor>
      in if q - of_int f < 1 / 2 then f
         else if 1 / 2 < q - of_int f then f + 1
         else if even f then f else f + 1)"

definition roundDouble :: "real \<Rightarrow> number" where
  "roundDouble r =
     (if r = 0 then Fin 0
      else
        let e = max (binade \<bar>r\<bar>) (- 1022);
            ulp = 2 powi (e - 52);
            v = of_int (roundHalfEven (r / ulp)) * ulp
        in if 2 ^ 1024 \<le> v then PInf else if v \<le> - (2 ^ 1024) then NInf else Fin v)"

fun dbl :: "number \<Rightarrow> number" where
  "dbl (Fin r) = roundDouble r"
| "dbl a = a"

section \<open>Data\<close>

text \<open>
  The interfaces \<^verbatim>\<open>WaveSource\<close> and \<^verbatim>\<open>Wall\<close>. An optional field is an
  \<open>option\<close>, \<open>None\<close> standing for \<^verbatim>\<open>undefined\<close>. The coordinate fields
  \<^verbatim>\<open>x\<close>, \<^verbatim>\<open>y\<close> of a source are named \<open>src_x\<close>, \<open>src_y\<close>, and \<^verbatim>\<open>x1\<close>,
  \<^verbatim>\<open>y1\<close>, \<^verbatim>\<open>x2\<close>, \<^verbatim>\<open>y2\<close> of a wall \<open>wx1\<close>, \<open>wy1\<close>, \<open>wx2\<close>, \<open>wy2\<close>, to
  leave the short names free for variables. A slit is the pair of its
  \<^verbatim>\<open>start\<close> and \<^verbatim>\<open>end\<close>.
\<close>

record WaveSource =
  src_x :: number
  src_y :: number
  frequency :: number
  amplitude :: number
  phase :: number
  active :: bool
  vx :: "number option"
  vy :: "number option"
  orbitCenterX :: "number option"
  orbitCenterY :: "number option"
  orbitRadius :: "number option"
  orbitSpeed :: "number option"
  orbitAngle :: "number option"

record Wall =
  wx1 :: number
  wy1 :: number
  wx2 :: number
  wy2 :: number
  slits :: "(number \<times> number) list option"

text \<open>
  The class \<^verbatim>\<open>WaveSimulation\<close>. \<open>cols\<close> and \<open>rows\<close> are integers (see the
  constructor below); the \<^verbatim>\<open>Float32Array\<close>s are lists of numbers and the
  \<^verbatim>\<open>Uint8Array\<close> mask is a list of bytes.
\<close>

record WaveSimulation =
  width :: number
  height :: number
  cellSize :: number
  cols :: int
  rows :: int
  current :: "number list"
  previous :: "number list"
  velocity :: "number list"
  energyMap :: "number list"
  energyTrailEnabled :: bool
  energyDecay :: number
  wallMask :: "8 word list"
  wallMaskDirty :: bool
  sampleBuffer :: "number list"
  waveSpeed :: number
  damping :: number
  dt :: number
  sources :: "WaveSource list"
  walls :: "Wall list"
  reflectiveBoundaries :: bool

definition CFL_LIMIT :: number where
  "CFL_LIMIT = Fin (1 / 2)"

subsection \<open>Typed arrays\<close>

text \<open>
  Indexing a typed array outside \<open>0 \<le> i < length\<close> is not an error in
  JavaScript: a read gives \<^verbatim>\<open>undefined\<close> and a write is ignored. The program
  uses the value of such a read only as a number (in arithmetic, in
  \<^verbatim>\<open>isFinite\<close>, in a store into a typed array), where \<^verbatim>\<open>undefined\<close>
  behaves as NaN, or as a condition, where it is falsy; so a read out of
  range is NaN in a float array and 0 in the mask.
\<close>

definition inRange :: "'a list \<Rightarrow> int \<Rightarrow> bool" where
  "inRange xs i = (0 \<le> i \<and> i < int (length xs))"

definition rd :: "number list \<Rightarrow> int \<Rightarrow> number" where
  "rd xs i = (if inRange xs i then xs ! nat i else NaN)"

definition rdMask :: "8 word list \<Rightarrow> int \<Rightarrow> 8 word" where
  "rdMask xs i = (if inRange xs i then xs ! nat i else 0)"

definition wr :: "'a list \<Rightarrow> int \<Rightarrow> 'a \<Rightarrow> 'a list" where
  "wr xs i v = (if inRange xs i then xs[nat i := v] else xs)"

text \<open>The same with a number as the key: only an integral finite number is an index.\<close>

fun keyOf :: "number \<Rightarrow> int option" where
  "keyOf (Fin a) = (if a = of_int \<lfloor>a\<rfloor> then Some \<lfloor>a\<rfloor> else None)"
| "keyOf a = None"

definition rdN :: "number list \<Rightarrow> number \<Rightarrow> number" where
  "rdN xs k = (case keyOf k of Some i \<Rightarrow> rd xs i | None \<Rightarrow> NaN)"

definition wrN :: "number list \<Rightarrow> number \<Rightarrow> number \<Rightarrow> number list" where
  "wrN xs k v = (case keyOf k of Some i \<Rightarrow> wr xs i v | None \<Rightarrow> xs)"

text \<open>\<^verbatim>\<open>fill(0)\<close>.\<close>

definition fill0 :: "number list \<Rightarrow> number list" where
  "fill0 xs = replicate (length xs) (Fin 0)"

definition fillMask0 :: "8 word list \<Rightarrow> 8 word list" where
  "fillMask0 xs = replicate (length xs) 0"

section \<open>Construction and mutators\<close>

text \<open>
  The constructor computes \<open>cols = ceil(width / cellSize)\<close>,
  \<open>rows = ceil(height / cellSize)\<close>, the quotients rounded to doubles, and
  allocates five arrays of \<open>cols * rows\<close> cells. \<^verbatim>\<open>new Float32Array(n)\<close> throws a \<^verbatim>\<open>RangeError\<close> for a
  negative, infinite or too large \<open>n\<close>, and allocates nothing for NaN. When
  \<open>cols\<close> or \<open>rows\<close> is not a finite number (which needs \<open>cellSize = 0\<close> or a
  non-finite argument) and the size is NaN, JavaScript does build an object,
  with no cells and a dimension that is no integer; this model, whose grid
  dimensions are integers, does not represent it and answers
  \<open>NonIntegerGrid\<close>. The limit an engine puts on the length of an array
  below \<open>2^53\<close> is not modelled.
\<close>

datatype ctor_error = RangeError | NonIntegerGrid

definition mkSimulation ::
  "number \<Rightarrow> number \<Rightarrow> number \<Rightarrow> int \<Rightarrow> int \<Rightarrow> WaveSimulation" where
  "mkSimulation w h c nc nr =
     \<lparr> width = w, height = h, cellSize = c, cols = nc, rows = nr,
       current = replicate (nat (nc * nr)) (Fin 0),
       previous = replicate (nat (nc * nr)) (Fin 0),
       velocity = replicate (nat (nc * nr)) (Fin 0),
       energyMap = replicate (nat (nc * nr)) (Fin 0),
       energyTrailEnabled = False,
       energyDecay = Fin (997 / 1000),
       wallMask = replicate (nat (nc * nr)) 0,
       wallMaskDirty = True,
       sampleBuffer = replicate 256 (Fin 0),
       waveSpeed = Fin (1 / 2),
       damping = Fin (995 / 1000),
       dt = Fin 1,
       sources = [],
       walls = [],
       reflectiveBoundaries = False \<rparr>"

definition constructor :: "number \<Rightarrow> number \<Rightarrow> number \<Rightarrow> ctor_error + WaveSimulation" where
  "constructor w h c =
     (case (ceilN (dbl (divN w c)), ceilN (dbl (divN h c))) of
        (Fin nc, Fin nr) \<Rightarrow>
          if nc * nr < 0 \<or> 2 ^ 53 - 1 < nc * nr then Inl RangeError
          else Inr (mkSimulation w h c \<lfloor>nc\<rfloor> \<lfloor>nr\<rfloor>)
      | (nc, nr) \<Rightarrow>
          if mulN nc nr = NaN then Inl NonIntegerGrid else Inl RangeError)"

definition getIndex :: "WaveSimulation \<Rightarrow> int \<Rightarrow> int \<Rightarrow> int" where
  "getIndex s x y = y * cols s + x"

definition addSource :: "number \<Rightarrow> number \<Rightarrow> number \<Rightarrow> number \<Rightarrow> WaveSimulation \<Rightarrow> WaveSimulation" where
  "addSource x y freq amp s =
     s\<lparr>sources := sources s @
         [\<lparr> src_x = divN x (cellSize s), src_y = divN y (cellSize s),
            frequency = freq, amplitude = amp, phase = Fin 0, active = True,
            vx = None, vy = None, orbitCenterX = None, orbitCenterY = None,
            orbitRadius = None, orbitSpeed = None, orbitAngle = None \<rparr>]\<rparr>"

definition addWall ::
  "number \<Rightarrow> number \<Rightarrow> number \<Rightarrow> number \<Rightarrow> (number \<times> number) list option \<Rightarrow>
   WaveSimulation \<Rightarrow> WaveSimulation" where
  "addWall x1 y1 x2 y2 sl s =
     s\<lparr>walls := walls s @
         [\<lparr> wx1 = divN x1 (cellSize s), wy1 = divN y1 (cellSize s),
            wx2 = divN x2 (cellSize s), wy2 = divN y2 (cellSize s),
            slits = sl \<rparr>],
       wallMaskDirty := True\<rparr>"

definition clear :: "WaveSimulation \<Rightarrow> WaveSimulation" where
  "clear s =
     s\<lparr>current := fill0 (current s), previous := fill0 (previous s),
       velocity := fill0 (velocity s), energyMap := fill0 (energyMap s),
       wallMask := fillMask0 (wallMask s), sources := [], walls := [],
       wallMaskDirty := True\<rparr>"

definition addOrbitalSource ::
  "number \<Rightarrow> number \<Rightarrow> number \<Rightarrow> number \<Rightarrow> number \<Rightarrow> number \<Rightarrow> number \<Rightarrow>
   WaveSimulation \<Rightarrow> WaveSimulation" where
  "addOrbitalSource centerX centerY radius speed freq amp startAngle s =
     (let cx = divN centerX (cellSize s);
          cy = divN centerY (cellSize s);
          r = divN radius (cellSize s)
      in s\<lparr>sources := sources s @
           [\<lparr> src_x = addN cx (mulN r (cosN startAngle)),
              src_y = addN cy (mulN r (sinN startAngle)),
              frequency = freq, amplitude = amp, phase = Fin 0, active = True,
              vx = None, vy = None, orbitCenterX = Some cx, orbitCenterY = Some cy,
              orbitRadius = Some r, orbitSpeed = Some speed,
              orbitAngle = Some startAngle \<rparr>]\<rparr>)"

section \<open>The obstacle mask\<close>

definition sqrN :: "number \<Rightarrow> number" where
  "sqrN a = mulN a a"

definition distanceToLine ::
  "number \<Rightarrow> number \<Rightarrow> number \<Rightarrow> number \<Rightarrow> number \<Rightarrow> number \<Rightarrow> number" where
  "distanceToLine px py x1 y1 x2 y2 =
     (let dx = subN x2 x1;
          dy = subN y2 y1;
          len2 = addN (mulN dx dx) (mulN dy dy)
      in if len2 = Fin 0 then sqrtN (addN (sqrN (subN px x1)) (sqrN (subN py y1)))
         else
           let t = maxN (Fin 0) (minN (Fin 1)
                     (divN (addN (mulN (subN px x1) dx) (mulN (subN py y1) dy)) len2));
               projx = addN x1 (mulN t dx);
               projy = addN y1 (mulN t dy)
           in sqrtN (addN (sqrN (subN px projx)) (sqrN (subN py projy))))"

definition isPointOnWall :: "number \<Rightarrow> number \<Rightarrow> Wall \<Rightarrow> bool" where
  "isPointOnWall x y wall =
     ltN (distanceToLine x y (wx1 wall) (wy1 wall) (wx2 wall) (wy2 wall)) (Fin (7 / 10))"

definition getParametricPosition :: "number \<Rightarrow> number \<Rightarrow> Wall \<Rightarrow> number" where
  "getParametricPosition x y wall =
     (let dx = subN (wx2 wall) (wx1 wall);
          dy = subN (wy2 wall) (wy1 wall);
          len2 = addN (mulN dx dx) (mulN dy dy)
      in if len2 = Fin 0 then Fin 0
         else divN (addN (mulN (subN x (wx1 wall)) dx) (mulN (subN y (wy1 wall)) dy)) len2)"

text \<open>The first wall the point lies on decides: blocked, unless the point is in one of its slits.\<close>

fun isInsideWall :: "Wall list \<Rightarrow> number \<Rightarrow> number \<Rightarrow> bool" where
  "isInsideWall [] x y = False"
| "isInsideWall (wall # ws) x y =
     (if isPointOnWall x y wall then
        (case slits wall of
           None \<Rightarrow> True
         | Some sl \<Rightarrow>
             \<not> list_ex (\<lambda>(start, end).
                   geN (getParametricPosition x y wall) start \<and>
                   leN (getParametricPosition x y wall) end) sl)
      else isInsideWall ws x y)"

text \<open>
  The mask the two nested loops of \<^verbatim>\<open>rebuildWallMask\<close> compute. Here and
  in the sweep and the boundary loops below, a loop
  \<^verbatim>\<open>for (let y = 0; y < this.rows; y++)\<close> is the fold over the integers it
  visits. That is what the loop does as long as its counter, a double,
  counts exactly, which it does up to \<open>2^53\<close>; with \<open>rows\<close> or \<open>cols\<close> beyond
  \<open>2^53\<close> the counter stops growing at \<open>2^53\<close> and the loop of the program
  never ends, which the fold does not show. A grid that large has no cells
  (no array of that length exists), so this concerns only whether \<^verbatim>\<open>step\<close>
  returns; the general theorems that conclude that it does, on the number
  of sub-steps and on grids without cells, assume \<open>cols\<close> and \<open>rows\<close> at
  most \<open>2^53\<close>.
\<close>

definition markWalls :: "WaveSimulation \<Rightarrow> 8 word list" where
  "markWalls s =
     fold (\<lambda>y. fold (\<lambda>x m.
             if isInsideWall (walls s) (numI x) (numI y)
             then wr m (y * cols s + x) 1 else m)
           [0 .. cols s - 1])
       [0 .. rows s - 1] (fillMask0 (wallMask s))"

definition rebuildWallMask :: "WaveSimulation \<Rightarrow> WaveSimulation" where
  "rebuildWallMask s =
     (if \<not> wallMaskDirty s then s
      else if walls s = [] then
        s\<lparr>wallMask := fillMask0 (wallMask s), wallMaskDirty := False\<rparr>
      else s\<lparr>wallMask := markWalls s, wallMaskDirty := False\<rparr>)"

section \<open>The time step\<close>

subsection \<open>Sources\<close>

text \<open>The first loop of \<^verbatim>\<open>step\<close>: a source with orbit centre, radius and speed moves along its orbit.\<close>

definition orbitStep :: "WaveSource \<Rightarrow> WaveSource" where
  "orbitStep source =
     (case (orbitCenterX source, orbitRadius source, orbitSpeed source) of
        (Some ocx, Some orad, Some ospeed) \<Rightarrow>
          let angle = addN (case orbitAngle source of None \<Rightarrow> Fin 0 | Some a \<Rightarrow> a) ospeed;
              newX = addN ocx (mulN orad (cosN angle));
              newY = addN (case orbitCenterY source of None \<Rightarrow> ocx | Some ocy \<Rightarrow> ocy)
                          (mulN orad (sinN angle))
          in source\<lparr>orbitAngle := Some angle,
                    vx := Some (mulN (subN newX (src_x source)) (Fin (1 / 10))),
                    vy := Some (mulN (subN newY (src_y source)) (Fin (1 / 10))),
                    src_x := newX, src_y := newY\<rparr>
      | _ \<Rightarrow> source)"

text \<open>Truthiness of an optional number, and \<open>v || 0\<close>.\<close>

fun truthyOpt :: "number option \<Rightarrow> bool" where
  "truthyOpt None = False"
| "truthyOpt (Some v) = truthy v"

definition orZero :: "number option \<Rightarrow> number" where
  "orZero v = (if truthyOpt v then the v else Fin 0)"

text \<open>
  The body of the second loop: an active source adds its sample to the cell
  it rounds to, if that cell is on the grid, and then, unless
  \<^verbatim>\<open>orbitCenterX\<close> is truthy, moves by its velocity.
\<close>

definition inject :: "WaveSimulation \<Rightarrow> number \<Rightarrow> WaveSource \<Rightarrow> number list \<Rightarrow> number list" where
  "inject s time source cur =
     (let sx = roundN (src_x source);
          sy = roundN (src_y source)
      in if geN sx (Fin 0) \<and> ltN sx (numI (cols s)) \<and> geN sy (Fin 0) \<and> ltN sy (numI (rows s))
         then
           let idx = addN (mulN sy (numI (cols s))) sx;
               freq = addN (frequency source) (mulN (orZero (vx source)) (Fin (1 / 1000)))
           in wrN cur idx
                (addN (rdN cur idx)
                   (mulN (amplitude source) (sinN (addN (mulN time freq) (phase source)))))
         else cur)"

definition advance :: "WaveSimulation \<Rightarrow> WaveSource \<Rightarrow> WaveSource" where
  "advance s source =
     (if \<not> truthyOpt (orbitCenterX source) then
        (let s1 = (if truthyOpt (vx source)
                   then source\<lparr>src_x := addN (src_x source) (mulN (the (vx source)) (dt s))\<rparr>
                   else source)
         in if truthyOpt (vy s1)
            then s1\<lparr>src_y := addN (src_y s1) (mulN (the (vy s1)) (dt s))\<rparr>
            else s1)
      else source)"

fun emitAll ::
  "WaveSimulation \<Rightarrow> number \<Rightarrow> WaveSource list \<Rightarrow> number list \<Rightarrow> WaveSource list \<times> number list" where
  "emitAll s time [] cur = ([], cur)"
| "emitAll s time (source # rest) cur =
     (if \<not> active source then
        (case emitAll s time rest cur of (rest', cur') \<Rightarrow> (source # rest', cur'))
      else
        (case emitAll s time rest (inject s time source cur) of
           (rest', cur') \<Rightarrow> (advance s source # rest', cur')))"

subsection \<open>The wave update\<close>

definition clamp50 :: "number \<Rightarrow> number" where
  "clamp50 newValue =
     (if gtN newValue (Fin 50) then Fin 50
      else if ltN newValue (Fin (- 50)) then Fin (- 50) else newValue)"

text \<open>One interior cell, on the pair of \<open>current\<close> and \<open>previous\<close>, updated in place.\<close>

definition updateCell ::
  "number \<Rightarrow> number \<Rightarrow> int \<Rightarrow> 8 word list \<Rightarrow> int \<Rightarrow> number list \<times> number list \<Rightarrow>
   number list \<times> number list" where
  "updateCell c2dt2 damp ncols wmask idx cp =
     (case cp of (cur, prev) \<Rightarrow>
        if rdMask wmask idx \<noteq> 0 then (wr cur idx (Fin 0), wr prev idx (Fin 0))
        else
          let laplacian =
                subN (addN (addN (addN (rd cur (idx + 1)) (rd cur (idx - 1)))
                                 (rd cur (idx + ncols)))
                           (rd cur (idx - ncols)))
                     (mulN (Fin 4) (rd cur idx));
              newValue =
                mulN (addN (subN (mulN (Fin 2) (rd cur idx)) (rd prev idx))
                           (mulN c2dt2 laplacian)) damp
          in (wr cur idx (clamp50 newValue), wr prev idx (rd cur idx)))"

definition sweep :: "WaveSimulation \<Rightarrow> number \<Rightarrow> number list \<times> number list" where
  "sweep s c2dt2 =
     fold (\<lambda>y. fold (\<lambda>x. updateCell c2dt2 (damping s) (cols s) (wallMask s) (y * cols s + x))
                  [1 .. cols s - 2])
       [1 .. rows s - 2] (current s, previous s)"

text \<open>The two branches of \<^verbatim>\<open>applyBoundaryConditions\<close>, as the new \<open>current\<close>.\<close>

definition reflectEdges :: "WaveSimulation \<Rightarrow> number list" where
  "reflectEdges s =
     fold (\<lambda>y cur.
             let cur1 = wr cur (getIndex s 0 y) (rd cur (getIndex s 1 y))
             in wr cur1 (getIndex s (cols s - 1) y) (rd cur1 (getIndex s (cols s - 2) y)))
       [0 .. rows s - 1]
       (fold (\<lambda>x cur.
                let cur1 = wr cur (getIndex s x 0) (rd cur (getIndex s x 1))
                in wr cur1 (getIndex s x (rows s - 1)) (rd cur1 (getIndex s x (rows s - 2))))
          [0 .. cols s - 1] (current s))"

definition absorbEdges :: "WaveSimulation \<Rightarrow> number list" where
  "absorbEdges s =
     fold (\<lambda>y cur. wr (wr cur (getIndex s 0 y) (Fin 0)) (getIndex s (cols s - 1) y) (Fin 0))
       [0 .. rows s - 1]
       (fold (\<lambda>x cur. wr (wr cur (getIndex s x 0) (Fin 0)) (getIndex s x (rows s - 1)) (Fin 0))
          [0 .. cols s - 1] (current s))"

definition applyBoundaryConditions :: "WaveSimulation \<Rightarrow> WaveSimulation" where
  "applyBoundaryConditions s =
     s\<lparr>current := (if reflectiveBoundaries s then reflectEdges s else absorbEdges s)\<rparr>"

definition substep :: "number \<Rightarrow> WaveSimulation \<Rightarrow> WaveSimulation" where
  "substep subDt s =
     (let c2 = mulN (waveSpeed s) (waveSpeed s);
          dt2 = mulN subDt subDt;
          c2dt2 = mulN c2 dt2
      in case sweep s c2dt2 of
           (cur, prev) \<Rightarrow> applyBoundaryConditions (s\<lparr>current := cur, previous := prev\<rparr>))"

text \<open>
  The loop \<^verbatim>\<open>for (let s = 0; s < subSteps; s++) this.substep(subDt)\<close>. The
  counter is a double holding a natural number: \<^verbatim>\<open>s++\<close> is exact below
  \<open>2^53\<close>, and \<open>2^53 + 1\<close> rounds back to \<open>2^53\<close>. The loop need not end, so
  its result is an \<open>option\<close>.
\<close>

definition incCounter :: "nat \<Rightarrow> nat" where
  "incCounter k = (if k < 2 ^ 53 then k + 1 else k)"

partial_function (option) substepLoop ::
  "nat \<Rightarrow> number \<Rightarrow> number \<Rightarrow> WaveSimulation \<Rightarrow> WaveSimulation option" where
  "substepLoop k n subDt s =
     (if ltN (Fin (real k)) n then substepLoop (incCounter k) n subDt (substep subDt s)
      else Some s)"

subsection \<open>Energy trail and stability guard\<close>

definition holdPeaks :: "WaveSimulation \<Rightarrow> number list" where
  "holdPeaks s =
     fold (\<lambda>i e. wr e (int i)
             (maxN (mulN (rd e (int i)) (energyDecay s)) (absN (rd (current s) (int i)))))
       [0 ..< length (current s)] (energyMap s)"

definition updateEnergy :: "WaveSimulation \<Rightarrow> WaveSimulation" where
  "updateEnergy s = (if energyTrailEnabled s then s\<lparr>energyMap := holdPeaks s\<rparr> else s)"

text \<open>\<open>(len >>> 4) || 1\<close>.\<close>

definition guardStride :: "nat \<Rightarrow> nat" where
  "guardStride len =
     (if drop_bit 4 (len mod 2 ^ 32) = 0 then 1 else drop_bit 4 (len mod 2 ^ 32))"

text \<open>The sampling loop of the guard, from index \<open>i\<close>: is some sampled cell not finite?\<close>

function guardScan :: "number list \<Rightarrow> nat \<Rightarrow> bool" where
  "guardScan cur i =
     (if i < length cur then
        (if \<not> isFiniteN (rd cur (int i)) then True
         else guardScan cur (i + guardStride (length cur)))
      else False)"
  by pat_completeness auto
termination
  by (relation "measure (\<lambda>(cur, i). length cur - i)") (auto simp: guardStride_def)

declare guardScan.simps [simp del]

definition hardReset :: "WaveSimulation \<Rightarrow> WaveSimulation" where
  "hardReset s =
     s\<lparr>current := fill0 (current s), previous := fill0 (previous s),
       velocity := fill0 (velocity s)\<rparr>"

definition stabilityGuard :: "WaveSimulation \<Rightarrow> WaveSimulation" where
  "stabilityGuard s =
     (if guardScan (current s) 0 then hardReset s
      else if \<not> isFiniteN (rd (current s) (int (length (current s)) - 1)) then hardReset s
      else s)"

text \<open>
  The indices at which the guard reads \<open>current\<close>, in order: the sampled
  ones up to the first that is not finite and, when the loop found none,
  \<open>len - 1\<close>.
\<close>

function guardScanReads :: "number list \<Rightarrow> nat \<Rightarrow> int list" where
  "guardScanReads cur i =
     (if i < length cur then
        int i # (if \<not> isFiniteN (rd cur (int i)) then []
                 else guardScanReads cur (i + guardStride (length cur)))
      else [])"
  by pat_completeness auto
termination
  by (relation "measure (\<lambda>(cur, i). length cur - i)") (auto simp: guardStride_def)

declare guardScanReads.simps [simp del]

definition stabilityGuardReads :: "number list \<Rightarrow> int list" where
  "stabilityGuardReads cur =
     guardScanReads cur 0 @ (if guardScan cur 0 then [] else [int (length cur) - 1])"

subsection \<open>\<^verbatim>\<open>step\<close>\<close>

text \<open>
  \<^verbatim>\<open>cflRatio = this.waveSpeed * this.dt\<close>,
  \<^verbatim>\<open>subSteps = Math.max(1, Math.ceil(cflRatio / CFL_LIMIT))\<close> and
  \<^verbatim>\<open>subDt = this.dt / subSteps\<close>, each product and quotient rounded to a
  double: the ceiling of a ratio that rounding moves onto a whole number is
  not the ceiling of the exact ratio.
\<close>

definition subSteps :: "WaveSimulation \<Rightarrow> number" where
  "subSteps s =
     maxN (Fin 1) (ceilN (dbl (divN (dbl (mulN (waveSpeed s) (dt s))) CFL_LIMIT)))"

definition subDt :: "WaveSimulation \<Rightarrow> number" where
  "subDt s = dbl (divN (dt s) (subSteps s))"

definition moveSources :: "WaveSimulation \<Rightarrow> WaveSimulation" where
  "moveSources s = s\<lparr>sources := map orbitStep (sources s)\<rparr>"

definition emit :: "number \<Rightarrow> WaveSimulation \<Rightarrow> WaveSimulation" where
  "emit time s =
     (case emitAll s time (sources s) (current s) of
        (srcs, cur) \<Rightarrow> s\<lparr>sources := srcs, current := cur\<rparr>)"

definition step :: "number \<Rightarrow> WaveSimulation \<Rightarrow> WaveSimulation option" where
  "step time s =
     (case substepLoop 0 (subSteps s) (subDt s) (emit time (moveSources (rebuildWallMask s))) of
        None \<Rightarrow> None
      | Some s' \<Rightarrow> Some (stabilityGuard (updateEnergy s')))"

section \<open>Impulses and queries\<close>

text \<open>
  \<^verbatim>\<open>applyImpulse\<close>. Its two loops count \<open>dy\<close> and \<open>dx\<close> from \<open>-r\<close> to \<open>r\<close>, where
  \<open>r = ceil(radius / cellSize)\<close>, of the quotient rounded to a double, is a
  number. For \<open>r = Infinity\<close> the loops
  never end; for NaN or \<open>-Infinity\<close> they do not start. For a finite \<open>r\<close>
  the counters are integers, and \<^verbatim>\<open>dy++\<close> is exact below \<open>2^53\<close>. From
  \<open>r = 2^53\<close> on the counter cannot pass \<open>r\<close> (\<open>2^53 + 1\<close> rounds back to
  \<open>2^53\<close>) and the loop \<^verbatim>\<open>for (let dy = -r; dy <= r; dy++)\<close> never ends.
\<close>

definition impulseCell ::
  "WaveSimulation \<Rightarrow> number \<Rightarrow> number \<Rightarrow> int \<Rightarrow> number \<Rightarrow> number \<Rightarrow> int \<Rightarrow> int \<Rightarrow>
   number list \<Rightarrow> number list" where
  "impulseCell s cx cy r sigma2 amp dy dx cur =
     (let gx = addN cx (numI dx);
          gy = addN cy (numI dy)
      in if ltN gx (Fin 1) \<or> geN gx (numI (cols s - 1)) \<or>
            ltN gy (Fin 1) \<or> geN gy (numI (rows s - 1)) then cur
         else if dx * dx + dy * dy > r * r then cur
         else
           let gaussian = mulN amp (expN (divN (negN (numI (dx * dx + dy * dy)))
                                               (mulN (Fin 2) sigma2)));
               idx = addN (mulN gy (numI (cols s))) gx
           in wrN cur idx (addN (rdN cur idx) gaussian))"

definition applyImpulse ::
  "number \<Rightarrow> number \<Rightarrow> number \<Rightarrow> number \<Rightarrow> WaveSimulation \<Rightarrow> WaveSimulation option" where
  "applyImpulse pixelX pixelY radius amp s =
     (let cx = floorN (divN pixelX (cellSize s));
          cy = floorN (divN pixelY (cellSize s));
          r = ceilN (dbl (divN radius (cellSize s)));
          sigma = mulN r (Fin (1 / 2));
          sigma2 = mulN sigma sigma
      in case r of
           Fin rr \<Rightarrow>
             if 2 ^ 53 \<le> rr then None
             else Some (s\<lparr>current :=
                          fold (\<lambda>dy. fold (impulseCell s cx cy \<lfloor>rr\<rfloor> sigma2 amp dy)
                                        [- \<lfloor>rr\<rfloor> .. \<lfloor>rr\<rfloor>])
                            [- \<lfloor>rr\<rfloor> .. \<lfloor>rr\<rfloor>] (current s)\<rparr>)
         | PInf \<Rightarrow> None
         | _ \<Rightarrow> Some s)"

text \<open>
  \<^verbatim>\<open>sampleLine\<close> returns the first \<open>numSamples\<close> cells of the sample buffer,
  which it replaces by a larger one when needed. \<open>numSamples\<close> is a natural
  number. The replacement, \<^verbatim>\<open>new Float32Array(numSamples)\<close>, throws a
  \<^verbatim>\<open>RangeError\<close> when the engine has no array of that length; the model
  describes the call when the allocation succeeds, and a general statement
  about \<^verbatim>\<open>sampleLine\<close> is made for \<open>numSamples\<close> within the buffer, where
  nothing is allocated.
\<close>

definition sampleAt ::
  "WaveSimulation \<Rightarrow> number \<Rightarrow> number \<Rightarrow> number \<Rightarrow> number \<Rightarrow> number \<Rightarrow> int \<Rightarrow> number" where
  "sampleAt s px1 py1 dx dy invCellSize i =
     (let gx = toInt32 (mulN (addN px1 (mulN dx (numI i))) invCellSize);
          gy = toInt32 (mulN (addN py1 (mulN dy (numI i))) invCellSize)
      in if 0 \<le> gx \<and> gx < cols s \<and> 0 \<le> gy \<and> gy < rows s
         then rd (current s) (gy * cols s + gx) else Fin 0)"

definition sampleLine ::
  "number \<Rightarrow> number \<Rightarrow> number \<Rightarrow> number \<Rightarrow> nat \<Rightarrow> WaveSimulation \<Rightarrow>
   number list \<times> WaveSimulation" where
  "sampleLine px1 py1 px2 py2 numSamples s =
     (let samples = (if length (sampleBuffer s) < numSamples
                     then replicate numSamples (Fin 0) else sampleBuffer s);
          invCellSize = divN (Fin 1) (cellSize s);
          invN = divN (Fin 1) (Fin (real numSamples - 1));
          dx = mulN (subN px2 px1) invN;
          dy = mulN (subN py2 py1) invN;
          filled = fold (\<lambda>i b. wr b i (sampleAt s px1 py1 dx dy invCellSize i))
                     [0 .. int numSamples - 1] samples
      in (take numSamples filled, s\<lparr>sampleBuffer := filled\<rparr>))"

text \<open>
  \<^verbatim>\<open>getValue\<close> and \<^verbatim>\<open>getEnergyValue\<close>. When a coordinate is NaN no
  comparison of the bounds check holds and the array is read at the key
  NaN, which gives \<^verbatim>\<open>undefined\<close>, here NaN.
\<close>

definition getValue :: "WaveSimulation \<Rightarrow> number \<Rightarrow> number \<Rightarrow> number" where
  "getValue s x y =
     (let gx = floorN (divN x (cellSize s));
          gy = floorN (divN y (cellSize s))
      in if ltN gx (Fin 0) \<or> geN gx (numI (cols s)) \<or> ltN gy (Fin 0) \<or> geN gy (numI (rows s))
         then Fin 0
         else rdN (current s) (addN (mulN gy (numI (cols s))) gx))"

definition getEnergyValue :: "WaveSimulation \<Rightarrow> number \<Rightarrow> number \<Rightarrow> number" where
  "getEnergyValue s x y =
     (let gx = floorN (divN x (cellSize s));
          gy = floorN (divN y (cellSize s))
      in if ltN gx (Fin 0) \<or> geN gx (numI (cols s)) \<or> ltN gy (Fin 0) \<or> geN gy (numI (rows s))
         then Fin 0
         else rdN (energyMap s) (addN (mulN gy (numI (cols s))) gx))"

section \<open>Example states\<close>

text \<open>
  A grid of 3 by 3 cells, as \<^verbatim>\<open>new WaveSimulation(12, 12, 4)\<close> builds it, and
  the same with \<^verbatim>\<open>waveSpeed = 1.5\<close>.
\<close>

definition grid3x3 :: WaveSimulation where
  "grid3x3 = mkSimulation (Fin 12) (Fin 12) (Fin 4) 3 3"

definition fastGrid :: WaveSimulation where
  "fastGrid = grid3x3\<lparr>waveSpeed := Fin (3 / 2)\<rparr>"

text \<open>
  The same grid with \<^verbatim>\<open>waveSpeed = 0.1\<close>, which as a double is
  \<open>3602879701896397 / 2^55\<close>, and \<^verbatim>\<open>dt = 5\<close>.
\<close>

definition tenthGrid :: WaveSimulation where
  "tenthGrid = grid3x3\<lparr>waveSpeed := Fin (3602879701896397 / 36028797018963968), dt := Fin 5\<rparr>"

text \<open>The fields of a source other than \<open>x\<close>, \<open>y\<close>, \<open>vx\<close>, \<open>vy\<close> and \<open>orbitAngle\<close> agree.\<close>

definition keepsEmitter :: "WaveSource \<Rightarrow> WaveSource \<Rightarrow> bool" where
  "keepsEmitter a b =
     (frequency b = frequency a \<and> amplitude b = amplitude a \<and> phase b = phase a \<and>
      active b = active a \<and> orbitCenterX b = orbitCenterX a \<and>
      orbitCenterY b = orbitCenterY a \<and> orbitRadius b = orbitRadius a \<and>
      orbitSpeed b = orbitSpeed a)"

text \<open>
  The 3 by 3 grid after \<^verbatim>\<open>addSource(4, 4, 1, 1)\<close>, after
  \<^verbatim>\<open>addWall(0, 0, 12, 12)\<close>, and after \<^verbatim>\<open>current[4] = NaN\<close>.
\<close>

definition sourceGrid :: WaveSimulation where
  "sourceGrid = addSource (Fin 4) (Fin 4) (Fin 1) (Fin 1) grid3x3"

definition wallGrid :: WaveSimulation where
  "wallGrid = addWall (Fin 0) (Fin 0) (Fin 12) (Fin 12) None grid3x3"

definition nanGrid :: WaveSimulation where
  "nanGrid = grid3x3\<lparr>current := wr (current grid3x3) 4 NaN\<rparr>"

text \<open>
  The 3 by 3 grid after \<^verbatim>\<open>addOrbitalSource(0, 8, 4, Math.PI, 1, 1)\<close>: an orbit
  of radius one cell about the grid point \<open>(0, 2)\<close>, half a turn per step.
\<close>

definition orbitGrid :: WaveSimulation where
  "orbitGrid = addOrbitalSource (Fin 0) (Fin 8) (Fin 4) (Fin pi) (Fin 1) (Fin 1) (Fin 0) grid3x3"

text \<open>
  The 3 by 3 grid after \<^verbatim>\<open>addSource(0, 0, 1, 1)\<close>, a source on the corner
  cell \<open>(0, 0)\<close>, and as the source loop of \<^verbatim>\<open>step(Math.PI / 2)\<close> leaves
  it: the source has added \<open>sin(pi / 2) = 1\<close> to cell \<open>0\<close>. The same two
  after \<^verbatim>\<open>waveSpeed = NaN\<close>.
\<close>

definition edgeGrid :: WaveSimulation where
  "edgeGrid = addSource (Fin 0) (Fin 0) (Fin 1) (Fin 1) grid3x3"

definition edgeEmitted :: WaveSimulation where
  "edgeEmitted = edgeGrid\<lparr>wallMaskDirty := False,
       current := [Fin 1, Fin 0, Fin 0, Fin 0, Fin 0, Fin 0, Fin 0, Fin 0, Fin 0]\<rparr>"

definition edgeNaNGrid :: WaveSimulation where
  "edgeNaNGrid = edgeGrid\<lparr>waveSpeed := NaN\<rparr>"

definition edgeNaNEmitted :: WaveSimulation where
  "edgeNaNEmitted = edgeNaNGrid\<lparr>wallMaskDirty := False,
       current := [Fin 1, Fin 0, Fin 0, Fin 0, Fin 0, Fin 0, Fin 0, Fin 0, Fin 0]\<rparr>"

text \<open>
  The grid with the centre source and reflective boundaries, and both
  grids as the source loop of \<^verbatim>\<open>step(Math.PI / 2)\<close> leaves them: the source
  has added \<open>sin(pi / 2) = 1\<close> to the centre cell.
\<close>

definition reflGrid :: WaveSimulation where
  "reflGrid = sourceGrid\<lparr>reflectiveBoundaries := True\<rparr>"

definition reflEmitted :: WaveSimulation where
  "reflEmitted = reflGrid\<lparr>wallMaskDirty := False,
       current := [Fin 0, Fin 0, Fin 0, Fin 0, Fin 1, Fin 0, Fin 0, Fin 0, Fin 0]\<rparr>"

definition sourceEmitted :: WaveSimulation where
  "sourceEmitted = sourceGrid\<lparr>wallMaskDirty := False,
       current := [Fin 0, Fin 0, Fin 0, Fin 0, Fin 1, Fin 0, Fin 0, Fin 0, Fin 0]\<rparr>"

text \<open>
  A value the clamp of the sweep lets through: not greater than \<open>50\<close> and
  not less than \<open>-50\<close>, as the program compares. The indices the sweep
  visits, in its order.
\<close>

definition bounded50 :: "number \<Rightarrow> bool" where
  "bounded50 v = (\<not> gtN v (Fin 50) \<and> \<not> ltN v (Fin (- 50)))"

definition interiorIndices :: "WaveSimulation \<Rightarrow> int list" where
  "interiorIndices s =
     concat (map (\<lambda>y. map (\<lambda>x. y * cols s + x) [1 .. cols s - 2]) [1 .. rows s - 2])"


text \<open>
  A grid of 2 by 2 cells with reflective boundaries and a source of
  amplitude 100 on cell \<open>(1, 1)\<close>, and the same after the source loop of
  \<^verbatim>\<open>step(Math.PI / 2)\<close>.
\<close>

definition grid2x2 :: WaveSimulation where
  "grid2x2 = mkSimulation (Fin 8) (Fin 8) (Fin 4) 2 2"

definition loudGrid :: WaveSimulation where
  "loudGrid = (addSource (Fin 4) (Fin 4) (Fin 1) (Fin 100) grid2x2)\<lparr>reflectiveBoundaries := True\<rparr>"

definition loudEmitted :: WaveSimulation where
  "loudEmitted = loudGrid\<lparr>wallMaskDirty := False, current := [Fin 0, Fin 0, Fin 0, Fin 100]\<rparr>"

text \<open>
  A number that is not negative: what a square, or a product of squares, is.
\<close>

fun nonnegN :: "number \<Rightarrow> bool" where
  "nonnegN (Fin r) = (0 \<le> r)"
| "nonnegN NInf = False"
| "nonnegN a = True"

text \<open>
  An invariant of the sweep, for a pair of \<open>current\<close> and \<open>previous\<close>: where
  \<open>previous\<close> holds a value that is not finite, the index is in \<open>S\<close> and
  \<open>current\<close> is not finite there either.
\<close>

definition prevTracked :: "int set \<Rightarrow> number list \<times> number list \<Rightarrow> bool" where
  "prevTracked S cp =
     (\<forall>i. inRange (snd cp) i \<and> \<not> isFiniteN (rd (snd cp) i) \<longrightarrow>
          i \<in> S \<and> \<not> isFiniteN (rd (fst cp) i))"


text \<open>
  A grid of 10 by 5 cells, as \<^verbatim>\<open>new WaveSimulation(40, 20, 4)\<close> builds it;
  the same after \<^verbatim>\<open>current[38] = NaN\<close>, cell \<open>(8, 3)\<close>, the last interior
  cell; and that state after the source loop of \<^verbatim>\<open>step\<close>.
\<close>

definition grid10x5 :: WaveSimulation where
  "grid10x5 = mkSimulation (Fin 40) (Fin 20) (Fin 4) 10 5"

definition nan10x5 :: WaveSimulation where
  "nan10x5 = grid10x5\<lparr>current := wr (current grid10x5) 38 NaN\<rparr>"

definition nan10x5Emitted :: WaveSimulation where
  "nan10x5Emitted = nan10x5\<lparr>wallMaskDirty := False\<rparr>"

text \<open>The field of a grid without cells: all five arrays are empty.\<close>

definition emptyField :: "WaveSimulation \<Rightarrow> bool" where
  "emptyField s =
     (current s = [] \<and> previous s = [] \<and> velocity s = [] \<and> energyMap s = [] \<and>
      wallMask s = [])"


text \<open>
  The grid \<^verbatim>\<open>new WaveSimulation(0, 0, 4)\<close> builds, and the same after the
  source loop of \<^verbatim>\<open>step\<close>.
\<close>

definition grid0x0 :: WaveSimulation where
  "grid0x0 = mkSimulation (Fin 0) (Fin 0) (Fin 4) 0 0"


definition grid0x0Emitted :: WaveSimulation where
  "grid0x0Emitted = grid0x0\<lparr>wallMaskDirty := False\<rparr>"

section \<open>Rounding to a double\<close>

lemma roundHalfEven_int [simp]: "roundHalfEven (of_int m) = m"
  by (simp add: roundHalfEven_def)

text \<open>The exponent is that of the binade, and the rounding reads as follows.\<close>

lemma binade_floor_log: "0 < r \<Longrightarrow> binade r = \<lfloor>log 2 r\<rfloor>"
proof (induction r rule: binade.induct)
  case (1 r)
  show ?case
  proof (cases "2 \<le> r")
    case True
    have "log 2 (r / 2) = log 2 r - 1" using True by (simp add: log_divide)
    then show ?thesis
      using 1(1) 1(3) True by (subst binade.simps) simp
  next
    case False
    show ?thesis
    proof (cases "r < 1")
      case True
      have "log 2 (r * 2) = log 2 r + 1" using 1(3) by (simp add: log_mult)
      then show ?thesis
        using 1(2) 1(3) True False by (subst binade.simps) simp
    next
      case ge: False
      have "0 \<le> log 2 r" "log 2 r < 1" using False ge by (simp_all add: log_less_iff)
      then have "\<lfloor>log 2 r\<rfloor> = 0" by linarith
      then show ?thesis using False ge 1(3) by (subst binade.simps) simp
    qed
  qed
qed

lemma roundDouble_alt:
  "roundDouble r =
     (if r = 0 then Fin 0
      else
        let e = max \<lfloor>log 2 \<bar>r\<bar>\<rfloor> (- 1022);
            ulp = 2 powr of_int (e - 52);
            v = of_int (roundHalfEven (r / ulp)) * ulp
        in if 2 ^ 1024 \<le> v then PInf else if v \<le> - (2 ^ 1024) then NInf else Fin v)"
proof (cases "r = 0")
  case True
  then show ?thesis by (simp add: roundDouble_def)
next
  case False
  then have b: "binade \<bar>r\<bar> = \<lfloor>log 2 \<bar>r\<bar>\<rfloor>" by (simp add: binade_floor_log)
  have p: "(2::real) powi k = 2 powr of_int k" for k by (simp add: powr_real_of_int')
  show ?thesis unfolding roundDouble_def b p ..
qed

text \<open>A real that is a double is rounded to itself.\<close>

lemma roundDouble_exact:
  assumes m: "r * 2 ^ j = of_int m" and j: "j \<le> 1074" and b: "\<bar>m\<bar> < 2 ^ 53"
  shows "roundDouble r = Fin r"
proof (cases "r = 0")
  case True
  then show ?thesis by (simp add: roundDouble_def)
next
  case False
  define L where "L = \<lfloor>log 2 \<bar>r\<bar>\<rfloor>"
  define e where "e = max L (- 1022)"
  define ulp :: real where "ulp = 2 powr of_int (e - 52)"
  have rpos: "0 < \<bar>r\<bar>" using False by simp
  have r: "r = of_int m / 2 ^ j" using m by (simp add: field_simps)
  have "\<bar>r\<bar> = of_int \<bar>m\<bar> / 2 ^ j" unfolding r by (simp add: abs_divide)
  also have "\<dots> < 2 ^ 53 / 2 ^ j"
  proof -
    have "(of_int \<bar>m\<bar> :: real) < 2 ^ 53" using b by (metis of_int_less_numeral_power_cancel_iff)
    then show ?thesis by (simp add: divide_strict_right_mono)
  qed
  finally have ub: "\<bar>r\<bar> < 2 ^ 53 / 2 ^ j" .
  have "2 ^ 53 / 2 ^ j = 2 powr (53 - real j)"
    by (simp add: powr_diff powr_realpow)
  with ub have "log 2 \<bar>r\<bar> < 53 - real j"
    using rpos by (simp add: log_less_iff)
  then have Lj: "L \<le> 52 - int j" unfolding L_def by linarith
  have ej: "0 \<le> 52 - e - int j"
    using Lj j by (simp add: e_def)
  define t where "t = nat (52 - e - int j)"
  have "r / ulp = of_int m * 2 powr (- real j) / 2 powr of_int (e - 52)"
    unfolding r ulp_def by (simp add: powr_minus powr_realpow divide_inverse)
  also have "\<dots> = of_int m * 2 powr (- real j - of_int (e - 52))"
    by (simp add: powr_diff)
  also have "- real j - of_int (e - 52) = real t" unfolding t_def using ej by simp
  also have "of_int m * 2 powr real t = of_int (m * 2 ^ t)"
    by (simp add: powr_realpow)
  finally have q: "r / ulp = of_int (m * 2 ^ t)" .
  have up: "0 < ulp" by (simp add: ulp_def)
  have v: "of_int (roundHalfEven (r / ulp)) * ulp = r"
    unfolding q roundHalfEven_int using q up by (simp add: field_simps)
  have "\<bar>r\<bar> < 2 ^ 53" using ub
    by (smt (verit) divide_le_eq_1_pos one_le_power zero_less_power mult_le_cancel_left1
        less_divide_eq)
  moreover have "(2::real) ^ 53 \<le> 2 ^ 1024" by (rule power_increasing) simp_all
  ultimately have rng: "\<not> 2 ^ 1024 \<le> r" "\<not> r \<le> - (2 ^ 1024)"
    by linarith+
  have "roundDouble r =
          (if 2 ^ 1024 \<le> of_int (roundHalfEven (r / ulp)) * ulp then PInf
           else if of_int (roundHalfEven (r / ulp)) * ulp \<le> - (2 ^ 1024) then NInf
           else Fin (of_int (roundHalfEven (r / ulp)) * ulp))"
    unfolding roundDouble_alt Let_def ulp_def e_def L_def by (simp only: False if_False)
  also have "\<dots> = Fin r"
    unfolding v by (simp only: rng if_False)
  finally show ?thesis .
qed

text \<open>The rounding of a real in the binade of exponent \<open>e\<close>.\<close>

lemma roundDouble_normal:
  assumes lo: "2 powr of_int e \<le> \<bar>r\<bar>" and hi: "\<bar>r\<bar> < 2 powr of_int (e + 1)"
    and e: "- 1022 \<le> e"
    and v: "v = of_int (roundHalfEven (r / 2 powr of_int (e - 52))) * 2 powr of_int (e - 52)"
    and b: "\<bar>v\<bar> < 2 ^ 1024"
  shows "roundDouble r = Fin v"
proof -
  have pos: "0 < \<bar>r\<bar>" using lo by (smt (verit) powr_gt_zero)
  then have nz: "r \<noteq> 0" by simp
  have "\<lfloor>log 2 \<bar>r\<bar>\<rfloor> = e"
    using lo hi pos by (simp add: floor_log_eq_powr_iff)
  then have m: "max \<lfloor>log 2 \<bar>r\<bar>\<rfloor> (- 1022) = e" using e by simp
  have rng: "\<not> 2 ^ 1024 \<le> v" "\<not> v \<le> - (2 ^ 1024)" using b by linarith+
  have "roundDouble r =
          (if 2 ^ 1024 \<le> v then PInf else if v \<le> - (2 ^ 1024) then NInf else Fin v)"
    unfolding roundDouble_alt Let_def m v by (simp only: nz if_False)
  also have "\<dots> = Fin v" by (simp only: rng if_False)
  finally show ?thesis .
qed

lemma roundDouble_0 [simp]: "roundDouble 0 = Fin 0"
  by (simp add: roundDouble_def)

lemma roundDouble_of_int: "\<bar>m\<bar> < 2 ^ 53 \<Longrightarrow> roundDouble (of_int m) = Fin (of_int m)"
  by (rule roundDouble_exact[where j=0 and m=m]) simp_all

lemma roundDouble_1 [simp]: "roundDouble 1 = Fin 1"
  using roundDouble_of_int[of 1] by simp

lemma roundDouble_numeral [simp]:
  "numeral k < (2::int) ^ 53 \<Longrightarrow> roundDouble (numeral k) = Fin (numeral k)"
  using roundDouble_of_int[of "numeral k"] by simp

lemma roundDouble_values:
  "roundDouble (1 / 2) = Fin (1 / 2)" "roundDouble 1 = Fin 1"
  "roundDouble (3 / 2) = Fin (3 / 2)" "roundDouble 3 = Fin 3"
  "roundDouble 5 = Fin 5" "roundDouble 10 = Fin 10"
proof -
  show "roundDouble (1 / 2) = Fin (1 / 2)"
    by (rule roundDouble_exact[where j=1 and m=1]) simp_all
  show "roundDouble 1 = Fin 1"
    by (rule roundDouble_exact[where j=0 and m=1]) simp_all
  show "roundDouble (3 / 2) = Fin (3 / 2)"
    by (rule roundDouble_exact[where j=1 and m=3]) simp_all
  show "roundDouble 3 = Fin 3"
    by (rule roundDouble_exact[where j=0 and m=3]) simp_all
  show "roundDouble 5 = Fin 5"
    by (rule roundDouble_exact[where j=0 and m=5]) simp_all
  show "roundDouble 10 = Fin 10"
    by (rule roundDouble_exact[where j=0 and m=10]) simp_all
qed

text \<open>
  Two roundings that are not exact: \<open>1 / 3\<close>, and five times the double
  nearest to \<open>0.1\<close>, which is a little above \<open>0.5\<close> and rounds onto it.
\<close>

lemma roundDouble_third: "roundDouble (1 / 3) = Fin (6004799503160661 / 18014398509481984)"
proof (rule roundDouble_normal[where e="- 2"])
  show "2 powr of_int (- 2) \<le> \<bar>1 / 3 :: real\<bar>" by (simp add: powr_minus_divide)
  show "\<bar>1 / 3 :: real\<bar> < 2 powr of_int (- 2 + 1)" by (simp add: powr_minus_divide)
  show "(6004799503160661 / 18014398509481984 :: real) =
          of_int (roundHalfEven (1 / 3 / 2 powr of_int (- 2 - 52))) * 2 powr of_int (- 2 - 52)"
    by (simp add: powr_minus_divide roundHalfEven_def Let_def)
qed simp_all

lemma roundDouble_tenth_by_5:
  "roundDouble (3602879701896397 / 36028797018963968 * 5) = Fin (1 / 2)"
proof (rule roundDouble_normal[where e="- 1"])
  show "2 powr of_int (- 1) \<le> \<bar>3602879701896397 / 36028797018963968 * 5 :: real\<bar>"
    by (simp add: powr_minus_divide)
  show "\<bar>3602879701896397 / 36028797018963968 * 5 :: real\<bar> < 2 powr of_int (- 1 + 1)"
    by (simp add: powr_minus_divide)
  show "(1 / 2 :: real) =
          of_int (roundHalfEven (3602879701896397 / 36028797018963968 * 5 /
                    2 powr of_int (- 1 - 52))) * 2 powr of_int (- 1 - 52)"
    by (simp add: powr_minus_divide roundHalfEven_def Let_def)
qed simp_all

lemma roundDouble_ne_NaN [simp]: "roundDouble r \<noteq> NaN"
  by (simp add: roundDouble_def Let_def)

lemma dbl_NaN_iff [simp]: "dbl a = NaN \<longleftrightarrow> a = NaN"
  by (cases a) simp_all

section \<open>Sub-stepping\<close>

lemma constructor_grid3x3: "constructor (Fin 12) (Fin 12) (Fin 4) = Inr grid3x3"
  by (simp add: constructor_def grid3x3_def)

lemma substepLoop_counts:
  "N \<le> 2 ^ 53 \<Longrightarrow> k \<le> N \<Longrightarrow>
   substepLoop k (Fin (real N)) d s = Some ((substep d ^^ (N - k)) s)"
proof (induction "N - k" arbitrary: k s)
  case 0
  then have "k = N" by simp
  then show ?case by (subst substepLoop.simps) simp
next
  case (Suc m)
  then have lt: "k < N" and m: "m = N - Suc k" by simp_all
  from lt Suc.prems have inc: "incCounter k = Suc k" by (simp add: incCounter_def)
  have "substepLoop k (Fin (real N)) d s = substepLoop (Suc k) (Fin (real N)) d (substep d s)"
    using lt inc by (subst substepLoop.simps) simp
  also have "\<dots> = Some ((substep d ^^ (N - Suc k)) (substep d s))"
    using Suc.hyps(1)[OF m] Suc.prems lt by simp
  also have "(substep d ^^ (N - Suc k)) (substep d s) = (substep d ^^ (N - k)) s"
    using lt by (metis Suc_diff_Suc funpow_swap1 funpow.simps(2) o_apply)
  finally show ?case .
qed

lemma maxN_one_ceil: "maxN (Fin 1) (ceilN (Fin a)) = numI (max 1 \<lceil>a\<rceil>)"
proof (cases "1 < \<lceil>a\<rceil>")
  case True
  then have "(1::real) < of_int \<lceil>a\<rceil>" by linarith
  with True show ?thesis by (simp add: maxN_def numI_def max_def)
next
  case False
  then have r: "\<not> (1::real) < of_int \<lceil>a\<rceil>" by linarith
  from False have m: "max 1 \<lceil>a\<rceil> = 1" by linarith
  have "maxN (Fin 1) (ceilN (Fin a)) = Fin 1"
    unfolding maxN_def ceilN.simps ltN.simps using r by simp
  with m show ?thesis by (simp add: numI_def)
qed

text \<open>
  With finite \<open>waveSpeed\<close> and \<open>dt\<close> the number of sub-steps is a whole
  number, at least 1, or \<open>Infinity\<close> (when the product overflows).
\<close>

lemma subSteps_cases:
  assumes "waveSpeed s = Fin w" "dt s = Fin d"
  shows "subSteps s = PInf \<or> (\<exists>n. 1 \<le> n \<and> subSteps s = Fin (real n))"
proof -
  define q where "q = dbl (divN (roundDouble (w * d)) CFL_LIMIT)"
  have s: "subSteps s = maxN (Fin 1) (ceilN q)"
    by (simp add: subSteps_def q_def assms)
  have "divN (roundDouble (w * d)) CFL_LIMIT \<noteq> NaN"
    by (cases "roundDouble (w * d)") (simp_all add: CFL_LIMIT_def)
  then have nn: "q \<noteq> NaN" by (simp add: q_def)
  show ?thesis
  proof (cases q)
    case (Fin c)
    have "subSteps s = Fin (real (nat (max 1 \<lceil>c\<rceil>)))"
      unfolding s Fin by (simp only: maxN_one_ceil) (simp add: numI_def)
    moreover have "1 \<le> nat (max 1 \<lceil>c\<rceil>)" by simp
    ultimately show ?thesis by blast
  next
    case PInf
    then show ?thesis by (simp add: s maxN_def)
  next
    case NInf
    then have "subSteps s = Fin (real 1)" by (simp add: s maxN_def)
    then show ?thesis by blast
  next
    case NaN
    with nn show ?thesis by simp
  qed
qed

lemma step_counted:
  assumes "subSteps s = Fin (real n)" "n \<le> 2 ^ 53"
  shows "step time s =
           Some (stabilityGuard (updateEnergy
             ((substep (subDt s) ^^ n) (emit time (moveSources (rebuildWallMask s))))))"
proof -
  have "substepLoop 0 (Fin (real n)) (subDt s) (emit time (moveSources (rebuildWallMask s)))
          = Some ((substep (subDt s) ^^ n) (emit time (moveSources (rebuildWallMask s))))"
    using substepLoop_counts[of n 0] assms(2) by simp
  then show ?thesis by (simp add: step_def assms(1))
qed

lemma subSteps_examples:
  assumes "dt s = Fin 1"
  shows "waveSpeed s = Fin (1 / 2) \<Longrightarrow> subSteps s = Fin 1"
    and "waveSpeed s = Fin (3 / 2) \<Longrightarrow> subSteps s = Fin 3"
    and "waveSpeed s = Fin 5 \<Longrightarrow> subSteps s = Fin 10"
  using assms by (simp_all add: subSteps_def CFL_LIMIT_def roundDouble_values maxN_def)

text \<open>
  C1, as amended. With finite \<open>waveSpeed\<close> and \<open>dt\<close>, \<^verbatim>\<open>step\<close> computes
  \<open>subSteps = max(1, ceil(cflRatio / 0.5))\<close>, where \<open>cflRatio\<close> is the
  product \<open>waveSpeed * dt\<close> rounded to a double and the quotient is rounded
  likewise, and \<open>subDt = dt / subSteps\<close>, rounded to a double. The count is
  a whole number, at least 1, or \<open>Infinity\<close>. When it is a number \<open>n\<close> of at
  most \<open>2^53\<close>, on a grid with \<open>cols\<close> and \<open>rows\<close> of at most \<open>2^53\<close>,
  \<^verbatim>\<open>step\<close> returns, having run \<^verbatim>\<open>substep(subDt)\<close> exactly \<open>n\<close> times between
  the source injection and the energy and guard passes. With \<open>dt = 1\<close>,
  \<open>waveSpeed = 0.5\<close> gives 1 sub-step, \<open>1.5\<close> gives 3 and \<open>5.0\<close> gives 10.
\<close>

theorem step_substep_count:
  assumes "waveSpeed s = Fin w" and "dt s = Fin d"
  shows "subSteps s =
           maxN (Fin 1) (ceilN (dbl (divN (roundDouble (w * d)) (Fin (1 / 2))))) \<and>
         subDt s = dbl (divN (Fin d) (subSteps s)) \<and>
         (subSteps s = PInf \<or> (\<exists>n. 1 \<le> n \<and> subSteps s = Fin (real n))) \<and>
         (\<forall>n. subSteps s = Fin (real n) \<and> n \<le> 2 ^ 53 \<and>
              cols s \<le> 2 ^ 53 \<and> rows s \<le> 2 ^ 53 \<longrightarrow>
              step time s =
                Some (stabilityGuard (updateEnergy
                  ((substep (subDt s) ^^ n) (emit time (moveSources (rebuildWallMask s))))))) \<and>
         (w = 1 / 2 \<and> d = 1 \<longrightarrow> subSteps s = Fin 1) \<and>
         (w = 3 / 2 \<and> d = 1 \<longrightarrow> subSteps s = Fin 3) \<and>
         (w = 5 \<and> d = 1 \<longrightarrow> subSteps s = Fin 10)"
proof -
  have n: "subSteps s =
             maxN (Fin 1) (ceilN (dbl (divN (roundDouble (w * d)) (Fin (1 / 2)))))"
    by (simp add: subSteps_def assms CFL_LIMIT_def)
  have sd: "subDt s = dbl (divN (Fin d) (subSteps s))"
    by (simp add: subDt_def assms)
  have st: "\<forall>n. subSteps s = Fin (real n) \<and> n \<le> 2 ^ 53 \<and>
              cols s \<le> 2 ^ 53 \<and> rows s \<le> 2 ^ 53 \<longrightarrow>
              step time s =
                Some (stabilityGuard (updateEnergy
                  ((substep (subDt s) ^^ n) (emit time (moveSources (rebuildWallMask s))))))"
    using step_counted[of s _ time] by blast
  have e1: "w = 1 / 2 \<and> d = 1 \<longrightarrow> subSteps s = Fin 1"
    using subSteps_examples(1)[of s] assms by simp
  have e2: "w = 3 / 2 \<and> d = 1 \<longrightarrow> subSteps s = Fin 3"
    using subSteps_examples(2)[of s] assms by simp
  have e3: "w = 5 \<and> d = 1 \<longrightarrow> subSteps s = Fin 10"
    using subSteps_examples(3)[of s] assms by simp
  from n sd subSteps_cases[OF assms] st e1 e2 e3 show ?thesis by blast
qed

theorem step_substep_count_witness:
  "subSteps fastGrid = Fin 3 \<and>
   subDt fastGrid = Fin (6004799503160661 / 18014398509481984) \<and>
   step (Fin 0) fastGrid =
     Some (stabilityGuard (updateEnergy
       ((substep (Fin (6004799503160661 / 18014398509481984)) ^^ 3)
          (emit (Fin 0) (moveSources (rebuildWallMask fastGrid)))))) \<and>
   subSteps tenthGrid = Fin 1"
proof -
  have w: "waveSpeed fastGrid = Fin (3 / 2)" and d: "dt fastGrid = Fin 1"
    and c: "cols fastGrid \<le> 2 ^ 53" "rows fastGrid \<le> 2 ^ 53"
    by (simp_all add: fastGrid_def grid3x3_def mkSimulation_def)
  note f = step_substep_count[OF w d, of "Fin 0"]
  from f have "(3 / 2 :: real) = 3 / 2 \<and> (1::real) = 1 \<longrightarrow> subSteps fastGrid = Fin 3"
    by blast
  then have n: "subSteps fastGrid = Fin 3" by simp
  from f have "subDt fastGrid = dbl (divN (Fin 1) (subSteps fastGrid))" by blast
  then have sd: "subDt fastGrid = Fin (6004799503160661 / 18014398509481984)"
    by (simp add: n roundDouble_third)
  have "subSteps fastGrid = Fin (real 3) \<and> (3::nat) \<le> 2 ^ 53 \<and>
        cols fastGrid \<le> 2 ^ 53 \<and> rows fastGrid \<le> 2 ^ 53"
    using n c by simp
  with f have st: "step (Fin 0) fastGrid =
     Some (stabilityGuard (updateEnergy
       ((substep (subDt fastGrid) ^^ 3) (emit (Fin 0) (moveSources (rebuildWallMask fastGrid))))))"
    by blast
  have w': "waveSpeed tenthGrid = Fin (3602879701896397 / 36028797018963968)"
    and d': "dt tenthGrid = Fin 5"
    by (simp_all add: tenthGrid_def grid3x3_def mkSimulation_def)
  from step_substep_count[OF w' d', of "Fin 0"]
  have "subSteps tenthGrid =
          maxN (Fin 1) (ceilN (dbl (divN
            (roundDouble (3602879701896397 / 36028797018963968 * 5)) (Fin (1 / 2)))))"
    by blast
  then have t: "subSteps tenthGrid = Fin 1"
    by (simp only: roundDouble_tenth_by_5) (simp add: roundDouble_values maxN_def)
  from n sd st t show ?thesis by simp
qed

section \<open>What an operation leaves alone\<close>

lemma length_wr [simp]: "length (wr xs i v) = length xs"
  by (simp add: wr_def)

lemma inRange_wr [simp]: "inRange (wr xs i v) j = inRange xs j"
  by (simp add: inRange_def)

lemma rd_wr: "rd (wr xs i v) j = (if j = i \<and> inRange xs i then v else rd xs j)"
  by (auto simp: rd_def wr_def inRange_def nat_eq_iff)

lemma length_wrN [simp]: "length (wrN xs k v) = length xs"
  by (simp add: wrN_def split: option.split)

lemma length_updateCell:
  "updateCell c dmp nc m idx cp = cp' \<Longrightarrow>
   length (fst cp') = length (fst cp) \<and> length (snd cp') = length (snd cp)"
  by (auto simp: updateCell_def Let_def split: prod.splits if_splits)

lemma length_fold_updateCell:
  "length (fst (fold (\<lambda>x. updateCell c dmp nc m (f x)) xs cp)) = length (fst cp) \<and>
   length (snd (fold (\<lambda>x. updateCell c dmp nc m (f x)) xs cp)) = length (snd cp)"
proof (induction xs arbitrary: cp)
  case Nil
  show ?case by simp
next
  case (Cons x xs)
  show ?case using Cons.IH[of "updateCell c dmp nc m (f x) cp"]
      length_updateCell[of c dmp nc m "f x" cp, OF refl] by simp
qed

lemma length_sweep:
  "length (fst (sweep s c)) = length (current s) \<and> length (snd (sweep s c)) = length (previous s)"
proof -
  have "length (fst (fold (\<lambda>y. fold (\<lambda>x. updateCell c (damping s) (cols s) (wallMask s) (y * cols s + x)) xs) ys cp))
          = length (fst cp) \<and>
        length (snd (fold (\<lambda>y. fold (\<lambda>x. updateCell c (damping s) (cols s) (wallMask s) (y * cols s + x)) xs) ys cp))
          = length (snd cp)" for xs ys cp
  proof (induction ys arbitrary: cp)
    case Nil
    show ?case by simp
  next
    case (Cons y ys)
    show ?case
      using Cons.IH length_fold_updateCell[of c "damping s" "cols s" "wallMask s" "\<lambda>x. y * cols s + x" xs cp]
      by simp
  qed
  then show ?thesis by (simp add: sweep_def)
qed

lemma length_fold_pres:
  "(\<And>x c. length (f x c) = length c) \<Longrightarrow> length (fold f xs c) = length c"
  by (induction xs arbitrary: c) simp_all

lemma length_reflectEdges [simp]: "length (reflectEdges s) = length (current s)"
  by (simp add: reflectEdges_def Let_def length_fold_pres)

lemma length_absorbEdges [simp]: "length (absorbEdges s) = length (current s)"
  by (simp add: absorbEdges_def length_fold_pres)

lemma applyBoundaryConditions_frame:
  "\<exists>c. applyBoundaryConditions s = s\<lparr>current := c\<rparr> \<and> length c = length (current s)"
  by (rule exI[of _ "if reflectiveBoundaries s then reflectEdges s else absorbEdges s"])
     (simp add: applyBoundaryConditions_def)

lemma substep_frame:
  "\<exists>c p. substep d s = s\<lparr>current := c, previous := p\<rparr> \<and>
         length c = length (current s) \<and> length p = length (previous s)"
proof -
  obtain cur prev where sw: "sweep s (mulN (mulN (waveSpeed s) (waveSpeed s)) (mulN d d)) = (cur, prev)"
    by (cases "sweep s (mulN (mulN (waveSpeed s) (waveSpeed s)) (mulN d d))")
  from length_sweep[of s "mulN (mulN (waveSpeed s) (waveSpeed s)) (mulN d d)"] sw
  have l: "length cur = length (current s)" "length prev = length (previous s)" by simp_all
  obtain c where c: "applyBoundaryConditions (s\<lparr>current := cur, previous := prev\<rparr>)
      = s\<lparr>current := cur, previous := prev\<rparr>\<lparr>current := c\<rparr>" "length c = length cur"
    using applyBoundaryConditions_frame[of "s\<lparr>current := cur, previous := prev\<rparr>"] by auto
  have "substep d s = s\<lparr>current := c, previous := prev\<rparr>"
    using sw c(1) by (simp add: substep_def Let_def)
  with l c(2) show ?thesis by auto
qed

lemma funpow_substep_frame:
  "\<exists>c p. (substep d ^^ m) s = s\<lparr>current := c, previous := p\<rparr> \<and>
         length c = length (current s) \<and> length p = length (previous s)"
proof (induction m)
  case 0
  show ?case
    by (rule exI[of _ "current s"], rule exI[of _ "previous s"]) simp
next
  case (Suc m)
  then obtain c p where 1: "(substep d ^^ m) s = s\<lparr>current := c, previous := p\<rparr>"
    "length c = length (current s)" "length p = length (previous s)" by blast
  obtain c' p' where 2: "substep d (s\<lparr>current := c, previous := p\<rparr>)
       = s\<lparr>current := c, previous := p\<rparr>\<lparr>current := c', previous := p'\<rparr>"
    "length c' = length c" "length p' = length p"
    using substep_frame[of d "s\<lparr>current := c, previous := p\<rparr>"] by auto
  have "(substep d ^^ Suc m) s = s\<lparr>current := c', previous := p'\<rparr>"
    using 1(1) 2(1) by simp
  with 1 2 show ?case by auto
qed

lemma substepLoop_funpow:
  "substepLoop k n d s = Some s' \<Longrightarrow>
   \<exists>m. s' = (substep d ^^ m) s \<and> (ltN (Fin (real k)) n \<longrightarrow> 0 < m)"
proof (induction arbitrary: rule: substepLoop.raw_induct[rotated 1, consumes 1])
  case (1 loop k n d s s')
  show ?case
  proof (cases "ltN (Fin (real k)) n")
    case True
    with 1(2) have "loop (incCounter k) n d (substep d s) = Some s'" by simp
    from 1(1)[OF this] obtain m where "s' = (substep d ^^ m) (substep d s)" by blast
    then have "s' = (substep d ^^ Suc m) s" by (simp add: funpow_swap1)
    with True show ?thesis by blast
  next
    case False
    with 1(2) have "s' = s" by simp
    then have "s' = (substep d ^^ 0) s" by simp
    with False show ?thesis by blast
  qed
qed

lemma mulN_ne_NaN_subSteps:
  assumes "mulN (waveSpeed s) (dt s) \<noteq> NaN"
  shows "ltN (Fin 0) (subSteps s)"
proof -
  define p where "p = dbl (mulN (waveSpeed s) (dt s))"
  define q where "q = dbl (divN p CFL_LIMIT)"
  have "p \<noteq> NaN" using assms by (simp add: p_def)
  then have "divN p CFL_LIMIT \<noteq> NaN" unfolding CFL_LIMIT_def
    by (cases p) simp_all
  then have "q \<noteq> NaN" by (simp add: q_def)
  then have "ltN (Fin 0) (maxN (Fin 1) (ceilN q))"
    by (cases q) (simp_all add: maxN_def)
  then show ?thesis by (simp add: subSteps_def q_def p_def)
qed

lemma step_SomeD:
  assumes "step time s = Some s'"
  shows "\<exists>m. s' = stabilityGuard (updateEnergy
                 ((substep (subDt s) ^^ m) (emit time (moveSources (rebuildWallMask s))))) \<and>
             (mulN (waveSpeed s) (dt s) \<noteq> NaN \<longrightarrow> 0 < m)"
proof -
  from assms obtain u where
    u: "substepLoop 0 (subSteps s) (subDt s) (emit time (moveSources (rebuildWallMask s))) = Some u"
    and s': "s' = stabilityGuard (updateEnergy u)"
    by (auto simp: step_def split: option.splits)
  from substepLoop_funpow[OF u] obtain m where
    m: "u = (substep (subDt s) ^^ m) (emit time (moveSources (rebuildWallMask s)))"
       "ltN (Fin (real 0)) (subSteps s) \<longrightarrow> 0 < m" by blast
  have "mulN (waveSpeed s) (dt s) \<noteq> NaN \<longrightarrow> 0 < m"
    using m(2) mulN_ne_NaN_subSteps[of s] by simp
  with s' m(1) show ?thesis by blast
qed

lemma sources_funpow_substep [simp]: "sources ((substep d ^^ m) s) = sources s"
  using funpow_substep_frame[where d=d and m=m and s=s] by auto

lemma sources_updateEnergy [simp]: "sources (updateEnergy s) = sources s"
  by (simp add: updateEnergy_def)

lemma sources_stabilityGuard [simp]: "sources (stabilityGuard s) = sources s"
  by (simp add: stabilityGuard_def hardReset_def)

lemma sources_rebuildWallMask [simp]: "sources (rebuildWallMask s) = sources s"
  by (simp add: rebuildWallMask_def)

lemma keepsEmitter_orbitStep: "keepsEmitter a (orbitStep a)"
  by (simp add: keepsEmitter_def orbitStep_def Let_def split: option.splits)

lemma keepsEmitter_advance: "keepsEmitter a (advance s a)"
  by (simp add: keepsEmitter_def advance_def Let_def)

lemma keepsEmitter_refl: "keepsEmitter a a"
  by (simp add: keepsEmitter_def)

lemma keepsEmitter_trans: "keepsEmitter a b \<Longrightarrow> keepsEmitter b c \<Longrightarrow> keepsEmitter a c"
  by (simp add: keepsEmitter_def)

lemma emitAll_keeps: "list_all2 keepsEmitter srcs (fst (emitAll s time srcs cur))"
proof (induction srcs arbitrary: cur)
  case Nil
  show ?case by simp
next
  case (Cons a srcs)
  show ?case
    using Cons.IH[of cur] Cons.IH[of "inject s time a cur"]
    by (auto simp: keepsEmitter_refl keepsEmitter_advance split: prod.splits)
qed

lemma sources_emit: "sources (emit time s) = fst (emitAll s time (sources s) (current s))"
  by (simp add: emit_def split: prod.splits)


lemma emit_frame:
  "emit time s = s\<lparr>sources := fst (emitAll s time (sources s) (current s)),
                    current := snd (emitAll s time (sources s) (current s))\<rparr>"
  by (simp add: emit_def split: prod.splits)

lemma updateEnergy_frame: "\<exists>e. updateEnergy s = s\<lparr>energyMap := e\<rparr>"
  by (rule exI[of _ "if energyTrailEnabled s then holdPeaks s else energyMap s"])
     (simp add: updateEnergy_def)

lemma stabilityGuard_frame:
  "\<exists>c p v. stabilityGuard s = s\<lparr>current := c, previous := p, velocity := v\<rparr>"
proof (cases "stabilityGuard s = s")
  case True
  then have "stabilityGuard s = s\<lparr>current := current s, previous := previous s,
                                   velocity := velocity s\<rparr>" by simp
  then show ?thesis by blast
next
  case False
  then have "stabilityGuard s = hardReset s" by (simp add: stabilityGuard_def split: if_splits)
  then show ?thesis unfolding hardReset_def by blast
qed

lemma step_frame:
  assumes "step time s = Some s'"
  shows "\<exists>srcs c p v e. s' = (rebuildWallMask s)\<lparr>sources := srcs, current := c, previous := p,
                                                  velocity := v, energyMap := e\<rparr>"
proof -
  let ?r = "rebuildWallMask s"
  from step_SomeD[OF assms] obtain m where
    s': "s' = stabilityGuard (updateEnergy
               ((substep (subDt s) ^^ m) (emit time (moveSources ?r))))" by blast
  obtain srcs c0 where 1: "emit time (moveSources ?r) = ?r\<lparr>sources := srcs, current := c0\<rparr>"
    using emit_frame[of time "moveSources ?r"] by (simp add: moveSources_def)
  obtain c1 p1 where 2: "(substep (subDt s) ^^ m) (?r\<lparr>sources := srcs, current := c0\<rparr>)
      = ?r\<lparr>sources := srcs, current := c0\<rparr>\<lparr>current := c1, previous := p1\<rparr>"
    using funpow_substep_frame[where d="subDt s" and m=m and s="?r\<lparr>sources := srcs, current := c0\<rparr>"]
    by blast
  let ?u = "?r\<lparr>sources := srcs, current := c1, previous := p1\<rparr>"
  obtain e where 3: "updateEnergy ?u = ?u\<lparr>energyMap := e\<rparr>"
    using updateEnergy_frame[of ?u] by blast
  obtain c p v where 4: "stabilityGuard (?u\<lparr>energyMap := e\<rparr>)
      = ?u\<lparr>energyMap := e\<rparr>\<lparr>current := c, previous := p, velocity := v\<rparr>"
    using stabilityGuard_frame[of "?u\<lparr>energyMap := e\<rparr>"] by blast
  have "s' = ?r\<lparr>sources := srcs, current := c, previous := p, velocity := v, energyMap := e\<rparr>"
    unfolding s' 1 2 using 3 4 by simp
  then show ?thesis by blast
qed

lemma rd_nat: "i < length xs \<Longrightarrow> rd xs (int i) = xs ! i"
  by (simp add: rd_def inRange_def)

lemma guardScan_iff:
  "guardScan cur i \<longleftrightarrow>
     (\<exists>k. i + k * guardStride (length cur) < length cur \<and>
          \<not> isFiniteN (cur ! (i + k * guardStride (length cur))))"
proof (induction cur i rule: guardScan.induct)
  case (1 cur i)
  let ?st = "guardStride (length cur)"
  show ?case
  proof (cases "i < length cur")
    case False
    then show ?thesis by (subst guardScan.simps) simp
  next
    case True
    show ?thesis
    proof (cases "isFiniteN (cur ! i)")
      case False
      with True have "guardScan cur i" by (subst guardScan.simps) (simp add: rd_nat)
      moreover have "i + 0 * ?st < length cur \<and> \<not> isFiniteN (cur ! (i + 0 * ?st))"
        using True False by simp
      ultimately show ?thesis by blast
    next
      case fin: True
      with True have "guardScan cur i = guardScan cur (i + ?st)"
        by (subst guardScan.simps) (simp add: rd_nat)
      also have "\<dots> \<longleftrightarrow> (\<exists>k. i + ?st + k * ?st < length cur \<and>
                               \<not> isFiniteN (cur ! (i + ?st + k * ?st)))"
        using "1.IH"[OF True] fin True by (simp add: rd_nat)
      also have "\<dots> \<longleftrightarrow> (\<exists>k. i + k * ?st < length cur \<and> \<not> isFiniteN (cur ! (i + k * ?st)))"
      proof
        assume "\<exists>k. i + ?st + k * ?st < length cur \<and> \<not> isFiniteN (cur ! (i + ?st + k * ?st))"
        then obtain k where "i + ?st + k * ?st < length cur"
          "\<not> isFiniteN (cur ! (i + ?st + k * ?st))" by blast
        then have "i + Suc k * ?st < length cur \<and> \<not> isFiniteN (cur ! (i + Suc k * ?st))"
          by (simp add: add.assoc)
        then show "\<exists>k. i + k * ?st < length cur \<and> \<not> isFiniteN (cur ! (i + k * ?st))" by blast
      next
        assume "\<exists>k. i + k * ?st < length cur \<and> \<not> isFiniteN (cur ! (i + k * ?st))"
        then obtain k where k: "i + k * ?st < length cur" "\<not> isFiniteN (cur ! (i + k * ?st))"
          by blast
        with fin have "k \<noteq> 0" by (cases k) auto
        then obtain j where "k = Suc j" by (cases k) auto
        with k have "i + ?st + j * ?st < length cur \<and> \<not> isFiniteN (cur ! (i + ?st + j * ?st))"
          by (simp add: add.assoc)
        then show "\<exists>k. i + ?st + k * ?st < length cur \<and>
                     \<not> isFiniteN (cur ! (i + ?st + k * ?st))" by blast
      qed
      finally show ?thesis .
    qed
  qed
qed

lemma current_updateEnergy [simp]: "current (updateEnergy s) = current s"
  by (simp add: updateEnergy_def)


lemma stabilityGuard_finite:
  assumes "\<forall>c\<in>set (current s). isFiniteN c" "current s \<noteq> []"
  shows "stabilityGuard s = s"
proof -
  have "\<not> guardScan (current s) 0"
    unfolding guardScan_iff using assms(1) by auto
  moreover have "isFiniteN (rd (current s) (int (length (current s)) - 1))"
  proof -
    from assms(2) have pos: "0 < length (current s)" by simp
    then have "int (length (current s)) - 1 = int (length (current s) - 1)" by linarith
    then have "rd (current s) (int (length (current s)) - 1) = current s ! (length (current s) - 1)"
      using pos by (simp only: rd_nat diff_less zero_less_one)
    then show ?thesis using assms(1) pos by simp
  qed
  ultimately show ?thesis by (simp add: stabilityGuard_def)
qed

lemma energy_off_substep:
  "\<not> energyTrailEnabled s \<Longrightarrow> updateEnergy (substep d s) = substep d s"
  using substep_frame[of d s] by (auto simp: updateEnergy_def)

text \<open>
  A \<^verbatim>\<open>waveSpeed\<close> that is NaN makes the number of sub-steps NaN, and the
  loop \<^verbatim>\<open>for (let s = 0; s < subSteps; s++)\<close> does not run.
\<close>

lemma subSteps_NaN:
  assumes "waveSpeed s = NaN"
  shows "subSteps s = NaN" and "subDt s = NaN"
proof -
  show n: "subSteps s = NaN"
    by (simp add: subSteps_def assms maxN_def)
  show "subDt s = NaN"
    unfolding subDt_def n by (cases "dt s") simp_all
qed

lemma step_no_substep:
  assumes "subSteps s = NaN"
  shows "step time s =
           Some (stabilityGuard (updateEnergy (emit time (moveSources (rebuildWallMask s)))))"
  unfolding step_def assms by (subst substepLoop.simps) simp

lemma step_once:
  assumes "waveSpeed s = Fin (1 / 2)" "dt s = Fin 1"
  shows "subSteps s = Fin 1" and "subDt s = Fin 1"
    and "substepLoop 0 (subSteps s) (subDt s) u = Some (substep (Fin 1) u)"
    and "step time s = Some (stabilityGuard (updateEnergy
           (substep (Fin 1) (emit time (moveSources (rebuildWallMask s))))))"
proof -
  show n: "subSteps s = Fin 1"
    by (rule subSteps_examples(1)[OF assms(2,1)])
  show d: "subDt s = Fin 1"
    by (simp add: subDt_def n assms roundDouble_values)
  show l: "substepLoop 0 (subSteps s) (subDt s) u = Some (substep (Fin 1) u)" for u
    unfolding n d using substepLoop_counts[of 1 0 "Fin 1" u] by simp
  show "step time s = Some (stabilityGuard (updateEnergy
           (substep (Fin 1) (emit time (moveSources (rebuildWallMask s))))))"
    by (simp add: step_def l)
qed

section \<open>Sources across a step\<close>

text \<open>
  C10. A completed \<^verbatim>\<open>step\<close> keeps the list of sources in length and order
  and changes, in each source, at most \<open>x\<close>, \<open>y\<close>, \<open>vx\<close>, \<open>vy\<close> and
  \<open>orbitAngle\<close>: \<open>frequency\<close>, \<open>amplitude\<close>, \<open>phase\<close>, \<open>active\<close> and the orbit
  centre, radius and speed are as before. The Doppler frequency
  \<open>frequency + vx * 0.001\<close> exists only inside \<open>inject\<close>.
\<close>

theorem step_keeps_emitters:
  assumes "step time s = Some s'"
  shows "list_all2 keepsEmitter (sources s) (sources s')"
proof -
  from step_SomeD[OF assms] obtain m where
    "s' = stabilityGuard (updateEnergy
            ((substep (subDt s) ^^ m) (emit time (moveSources (rebuildWallMask s)))))" by blast
  then have s': "sources s' = sources (emit time (moveSources (rebuildWallMask s)))" by simp
  let ?s2 = "moveSources (rebuildWallMask s)"
  have 1: "list_all2 keepsEmitter (sources s) (sources ?s2)"
    by (simp add: moveSources_def list_all2_map2 keepsEmitter_orbitStep list_all2_same)
  have 2: "list_all2 keepsEmitter (sources ?s2) (sources (emit time ?s2))"
    unfolding sources_emit by (rule emitAll_keeps)
  have "list_all2 keepsEmitter (sources s) (sources (emit time ?s2))"
    by (rule list_all2_trans[OF _ 1 2]) (rule keepsEmitter_trans)
  with s' show ?thesis by simp
qed

theorem step_keeps_emitters_witness:
  "\<exists>s'. step (Fin 0) sourceGrid = Some s' \<and>
        list_all2 keepsEmitter (sources sourceGrid) (sources s')"
proof -
  have "waveSpeed sourceGrid = Fin (1 / 2)" "dt sourceGrid = Fin 1"
    by (simp_all add: sourceGrid_def addSource_def grid3x3_def mkSimulation_def)
  from step_once(4)[OF this, of "Fin 0"] obtain s' where s': "step (Fin 0) sourceGrid = Some s'"
    by blast
  from step_keeps_emitters[OF s'] s' show ?thesis by blast
qed

section \<open>The stability guard\<close>

text \<open>
  C6. Let \<open>v\<close> be the state \<^verbatim>\<open>step\<close> has reached after its sub-step loop.
  If a cell of \<open>current\<close> that the guard samples (an index that is a
  multiple of the stride, or the last index) is not finite, then \<^verbatim>\<open>step\<close>
  returns, and what it returns is the state the guard was given (\<open>v\<close> after
  the energy pass) with \<open>current\<close>, \<open>previous\<close> and \<open>velocity\<close> filled with
  zeros and every other field, among them sources, walls, mask, energy map
  and parameters, as it was.
\<close>

theorem guard_reset_frame:
  assumes loop: "substepLoop 0 (subSteps s) (subDt s)
                   (emit time (moveSources (rebuildWallMask s))) = Some v"
    and detect: "(\<exists>k. k * guardStride (length (current v)) < length (current v) \<and>
                      \<not> isFiniteN (current v ! (k * guardStride (length (current v))))) \<or>
                 \<not> isFiniteN (rd (current v) (int (length (current v)) - 1))"
  shows "step time s =
           Some ((updateEnergy v)\<lparr>current := replicate (length (current v)) (Fin 0),
                                  previous := replicate (length (previous v)) (Fin 0),
                                  velocity := replicate (length (velocity v)) (Fin 0)\<rparr>)"
proof -
  have "guardScan (current v) 0 \<or> \<not> isFiniteN (rd (current v) (int (length (current v)) - 1))"
    using detect guardScan_iff[of "current v" 0] by simp
  then have "stabilityGuard (updateEnergy v) = hardReset (updateEnergy v)"
    by (auto simp: stabilityGuard_def)
  moreover have "previous (updateEnergy v) = previous v" "velocity (updateEnergy v) = velocity v"
    by (simp_all add: updateEnergy_def)
  ultimately show ?thesis using loop by (simp add: step_def hardReset_def fill0_def)
qed

lemma nanGrid_emit:
  "emit (Fin 0) (moveSources (rebuildWallMask nanGrid)) = nanGrid\<lparr>wallMaskDirty := False\<rparr>"
  by (simp add: emit_def moveSources_def rebuildWallMask_def nanGrid_def grid3x3_def
      mkSimulation_def fillMask0_def)

lemma nanGrid_sweep:
  "current (substep (Fin 1) (nanGrid\<lparr>wallMaskDirty := False\<rparr>)) =
     [Fin 0, Fin 0, Fin 0, Fin 0, NaN, Fin 0, Fin 0, Fin 0, Fin 0]"
  by code_simp

lemma nanGrid_substep:
  "current (substep (Fin 1) (emit (Fin 0) (moveSources (rebuildWallMask nanGrid)))) =
     [Fin 0, Fin 0, Fin 0, Fin 0, NaN, Fin 0, Fin 0, Fin 0, Fin 0]"
  by (simp only: nanGrid_emit nanGrid_sweep)

theorem guard_reset_frame_witness:
  "\<exists>v. substepLoop 0 (subSteps nanGrid) (subDt nanGrid)
          (emit (Fin 0) (moveSources (rebuildWallMask nanGrid))) = Some v \<and>
        \<not> isFiniteN (current v ! 4) \<and>
        step (Fin 0) nanGrid =
          Some ((updateEnergy v)\<lparr>current := replicate (length (current v)) (Fin 0),
                                 previous := replicate (length (previous v)) (Fin 0),
                                 velocity := replicate (length (velocity v)) (Fin 0)\<rparr>)"
proof -
  let ?v = "substep (Fin 1) (emit (Fin 0) (moveSources (rebuildWallMask nanGrid)))"
  have p: "waveSpeed nanGrid = Fin (1 / 2)" "dt nanGrid = Fin 1"
    by (simp_all add: nanGrid_def grid3x3_def mkSimulation_def)
  have loop: "substepLoop 0 (subSteps nanGrid) (subDt nanGrid)
                (emit (Fin 0) (moveSources (rebuildWallMask nanGrid))) = Some ?v"
    by (rule step_once(3)[OF p])
  have st: "guardStride (length (current ?v)) = 1"
    by (simp add: nanGrid_substep guardStride_def drop_bit_eq_div)
  have nf: "\<not> isFiniteN (current ?v ! 4)"
    by (simp add: nanGrid_substep)
  have "4 * guardStride (length (current ?v)) < length (current ?v) \<and>
        \<not> isFiniteN (current ?v ! (4 * guardStride (length (current ?v))))"
    unfolding st using nf by (simp add: nanGrid_substep)
  then have det: "(\<exists>k. k * guardStride (length (current ?v)) < length (current ?v) \<and>
                      \<not> isFiniteN (current ?v ! (k * guardStride (length (current ?v))))) \<or>
                 \<not> isFiniteN (rd (current ?v) (int (length (current ?v)) - 1))"
    by blast
  show ?thesis
    by (rule exI[of _ ?v]) (intro conjI loop nf guard_reset_frame[OF loop det])
qed

section \<open>Walls\<close>

text \<open>
  C9. \<^verbatim>\<open>addWall(x1, y1, x2, y2, slits)\<close> appends the wall whose endpoints are
  the four arguments divided by \<open>cellSize\<close> and whose slits are the argument
  as given, and sets the dirty flag; \<^verbatim>\<open>rebuildWallMask\<close>, the first action
  of the next \<^verbatim>\<open>step\<close>, then recomputes the mask from the walls, and a
  completed step ends with that mask and a clean flag.
\<close>

theorem addWall_pixels_dirty:
  "walls (addWall x1 y1 x2 y2 sl s) =
     walls s @ [\<lparr> wx1 = divN x1 (cellSize s), wy1 = divN y1 (cellSize s),
                  wx2 = divN x2 (cellSize s), wy2 = divN y2 (cellSize s), slits = sl \<rparr>] \<and>
   wallMaskDirty (addWall x1 y1 x2 y2 sl s) \<and>
   rebuildWallMask (addWall x1 y1 x2 y2 sl s) =
     (addWall x1 y1 x2 y2 sl s)\<lparr>wallMask := markWalls (addWall x1 y1 x2 y2 sl s),
                                  wallMaskDirty := False\<rparr> \<and>
   (\<forall>time s'. step time (addWall x1 y1 x2 y2 sl s) = Some s' \<longrightarrow>
       wallMask s' = markWalls (addWall x1 y1 x2 y2 sl s) \<and> \<not> wallMaskDirty s')"
proof -
  let ?a = "addWall x1 y1 x2 y2 sl s"
  have w: "walls ?a = walls s @ [\<lparr> wx1 = divN x1 (cellSize s), wy1 = divN y1 (cellSize s),
                  wx2 = divN x2 (cellSize s), wy2 = divN y2 (cellSize s), slits = sl \<rparr>]"
    and d: "wallMaskDirty ?a"
    by (simp_all add: addWall_def)
  from w have ne: "walls ?a \<noteq> []" by simp
  have r: "rebuildWallMask ?a = ?a\<lparr>wallMask := markWalls ?a, wallMaskDirty := False\<rparr>"
    using d ne by (simp add: rebuildWallMask_def)
  have "wallMask s' = markWalls ?a \<and> \<not> wallMaskDirty s'" if "step time ?a = Some s'" for time s'
    using step_frame[OF that] unfolding r by auto
  with w d r show ?thesis by blast
qed

theorem addWall_pixels_dirty_witness:
  "walls wallGrid = [\<lparr> wx1 = Fin 0, wy1 = Fin 0, wx2 = Fin 3, wy2 = Fin 3, slits = None \<rparr>] \<and>
   wallMaskDirty wallGrid \<and>
   (\<exists>s'. step (Fin 0) wallGrid = Some s' \<and> wallMask s' = markWalls wallGrid \<and>
         \<not> wallMaskDirty s')"
proof -
  have p: "waveSpeed wallGrid = Fin (1 / 2)" "dt wallGrid = Fin 1"
    by (simp_all add: wallGrid_def addWall_def grid3x3_def mkSimulation_def)
  from step_once(4)[OF p, of "Fin 0"] obtain s' where s': "step (Fin 0) wallGrid = Some s'"
    by blast
  have c: "cellSize grid3x3 = Fin 4" "walls grid3x3 = []"
    by (simp_all add: grid3x3_def mkSimulation_def)
  from addWall_pixels_dirty[of "Fin 0" "Fin 0" "Fin 12" "Fin 12" None grid3x3] s' c
  show ?thesis unfolding wallGrid_def by auto
qed

section \<open>Boundary conditions\<close>

lemma rd_fold_wr0:
  "rd (fold (\<lambda>x cur. wr (wr cur (f x) (Fin 0)) (g x) (Fin 0)) xs cur) i =
     (if inRange cur i \<and> (\<exists>x\<in>set xs. i = f x \<or> i = g x) then Fin 0 else rd cur i)"
proof (induction xs arbitrary: cur)
  case Nil
  show ?case by simp
next
  case (Cons a xs)
  show ?case
    unfolding fold_Cons o_apply Cons.IH
    by (auto simp: rd_wr)
qed

lemma inRange_getIndex:
  assumes "0 \<le> x" "x < cols s" "0 \<le> y" "y < rows s" "length xs = nat (cols s * rows s)"
  shows "inRange xs (getIndex s x y)"
proof -
  have "y * cols s + x < (y + 1) * cols s" using assms by (simp add: algebra_simps)
  also have "\<dots> \<le> rows s * cols s" using assms by (intro mult_right_mono) auto
  finally have "y * cols s + x < cols s * rows s" by (simp add: mult.commute)
  moreover have "0 \<le> y * cols s + x" using assms by simp
  ultimately show ?thesis using assms by (simp add: inRange_def getIndex_def)
qed

lemma absorbEdges_zero:
  assumes "0 \<le> x" "x < cols s" "0 \<le> y" "y < rows s"
    and len: "length (current s) = nat (cols s * rows s)"
    and edge: "x = 0 \<or> x = cols s - 1 \<or> y = 0 \<or> y = rows s - 1"
  shows "rd (absorbEdges s) (getIndex s x y) = Fin 0"
proof -
  have r: "inRange (current s) (getIndex s x y)"
    by (rule inRange_getIndex[OF assms(1-4) len])
  have xs: "x \<in> set [0 .. cols s - 1]" and ys: "y \<in> set [0 .. rows s - 1]"
    using assms by simp_all
  let ?inner = "fold (\<lambda>x cur. wr (wr cur (getIndex s x 0) (Fin 0)) (getIndex s x (rows s - 1)) (Fin 0))
          [0 .. cols s - 1] (current s)"
  have ri: "inRange ?inner (getIndex s x y)"
    using r by (simp add: inRange_def length_fold_pres)
  from edge consider "y = 0 \<or> y = rows s - 1" | "x = 0 \<or> x = cols s - 1" by blast
  then show ?thesis
  proof cases
    case 1
    then have "\<exists>x'\<in>set [0 .. cols s - 1].
                 getIndex s x y = getIndex s x' 0 \<or> getIndex s x y = getIndex s x' (rows s - 1)"
      using xs by blast
    then have "rd ?inner (getIndex s x y) = Fin 0"
      using r by (simp only: rd_fold_wr0 if_True simp_thms)
    then show ?thesis
      unfolding absorbEdges_def rd_fold_wr0 by simp
  next
    case 2
    then have "\<exists>y'\<in>set [0 .. rows s - 1].
                 getIndex s x y = getIndex s 0 y' \<or> getIndex s x y = getIndex s (cols s - 1) y'"
      using ys by blast
    then show ?thesis
      unfolding absorbEdges_def using ri by (simp only: rd_fold_wr0 if_True simp_thms)
  qed
qed

lemma length_inject [simp]: "length (inject s time src cur) = length cur"
  by (simp add: inject_def Let_def)

lemma length_emitAll [simp]: "length (snd (emitAll s time srcs cur)) = length cur"
proof (induction srcs arbitrary: cur)
  case Nil
  show ?case by simp
next
  case (Cons a srcs)
  show ?case
    using Cons.IH[of cur] Cons.IH[of "inject s time a cur"]
    by (cases "emitAll s time srcs cur"; cases "emitAll s time srcs (inject s time a cur)") auto
qed

lemma length_current_emit [simp]: "length (current (emit time s)) = length (current s)"
  by (simp add: emit_frame)

lemma current_moveSources [simp]: "current (moveSources s) = current s"
  by (simp add: moveSources_def)

lemma current_rebuildWallMask [simp]: "current (rebuildWallMask s) = current s"
  by (simp add: rebuildWallMask_def)

lemma dims_rebuildWallMask [simp]:
  "cols (rebuildWallMask s) = cols s" "rows (rebuildWallMask s) = rows s"
  "reflectiveBoundaries (rebuildWallMask s) = reflectiveBoundaries s"
  by (simp_all add: rebuildWallMask_def)

lemma step_last_substep:
  assumes "step time s = Some s'" and "mulN (waveSpeed s) (dt s) \<noteq> NaN"
  shows "\<exists>u c p srcs. s' = stabilityGuard (updateEnergy (substep (subDt s) u)) \<and>
           u = (rebuildWallMask s)\<lparr>sources := srcs, current := c, previous := p\<rparr> \<and>
           length c = length (current s)"
proof -
  let ?r = "rebuildWallMask s"
  from step_SomeD[OF assms(1)] assms(2) obtain m where
    s': "s' = stabilityGuard (updateEnergy
               ((substep (subDt s) ^^ m) (emit time (moveSources ?r))))" and m: "0 < m"
    by blast
  obtain srcs c0 where 1: "emit time (moveSources ?r) = ?r\<lparr>sources := srcs, current := c0\<rparr>"
    and l0: "length c0 = length (current s)"
    using emit_frame[of time "moveSources ?r"] length_emitAll[of "moveSources ?r" time "sources (moveSources ?r)" "current (moveSources ?r)"]
    by (simp add: moveSources_def)
  from m obtain n where n: "m = Suc n" by (cases m) auto
  obtain c1 p1 where 2: "(substep (subDt s) ^^ n) (?r\<lparr>sources := srcs, current := c0\<rparr>)
      = ?r\<lparr>sources := srcs, current := c0\<rparr>\<lparr>current := c1, previous := p1\<rparr>"
    and l1: "length c1 = length (current (?r\<lparr>sources := srcs, current := c0\<rparr>))"
    using funpow_substep_frame[where d="subDt s" and m=n and s="?r\<lparr>sources := srcs, current := c0\<rparr>"]
    by blast
  have "s' = stabilityGuard (updateEnergy (substep (subDt s)
               (?r\<lparr>sources := srcs, current := c1, previous := p1\<rparr>)))"
    unfolding s' n 1 using 2 by simp
  moreover have "length c1 = length (current s)" using l1 l0 by simp
  ultimately show ?thesis by blast
qed

lemma current_substep:
  "current (substep d u) =
     (if reflectiveBoundaries u
      then reflectEdges (u\<lparr>current := fst (sweep u (mulN (mulN (waveSpeed u) (waveSpeed u)) (mulN d d))),
                           previous := snd (sweep u (mulN (mulN (waveSpeed u) (waveSpeed u)) (mulN d d)))\<rparr>)
      else absorbEdges (u\<lparr>current := fst (sweep u (mulN (mulN (waveSpeed u) (waveSpeed u)) (mulN d d))),
                           previous := snd (sweep u (mulN (mulN (waveSpeed u) (waveSpeed u)) (mulN d d)))\<rparr>))"
  by (simp add: substep_def Let_def applyBoundaryConditions_def split: prod.splits)

lemma current_stabilityGuard:
  "current (stabilityGuard z) = current z \<or> current (stabilityGuard z) = fill0 (current z)"
  by (simp add: stabilityGuard_def hardReset_def)

lemma rd_fill0: "inRange xs i \<Longrightarrow> rd (fill0 xs) i = Fin 0"
  by (simp add: rd_def fill0_def inRange_def nat_less_iff)

lemma step_dims:
  assumes "step time s = Some s'"
  shows "cols s' = cols s" "rows s' = rows s" "length (current s') = length (current s)"
proof -
  from step_frame[OF assms] obtain srcs c p v e where
    s': "s' = (rebuildWallMask s)\<lparr>sources := srcs, current := c, previous := p,
                                 velocity := v, energyMap := e\<rparr>" by blast
  show "cols s' = cols s" "rows s' = rows s"
    unfolding s' by (simp_all add: rebuildWallMask_def)
  from step_SomeD[OF assms] obtain m where
    "s' = stabilityGuard (updateEnergy
               ((substep (subDt s) ^^ m) (emit time (moveSources (rebuildWallMask s)))))" by blast
  moreover have "length (current ((substep (subDt s) ^^ m) z)) = length (current z)" for z
    using funpow_substep_frame[where d="subDt s" and m=m and s=z] by auto
  moreover have "length (current (stabilityGuard z)) = length (current z)" for z
    using current_stabilityGuard[of z] by (auto simp: fill0_def)
  ultimately show "length (current s') = length (current s)" by simp
qed


text \<open>
  C7, as amended. With \<open>reflectiveBoundaries = false\<close>, on a grid whose
  field has \<open>cols * rows\<close> cells, after a completed \<^verbatim>\<open>step\<close> whose product
  \<open>waveSpeed * dt\<close> is not NaN (so that at least one sub-step ran) every
  cell in row \<open>0\<close>, row \<open>rows - 1\<close>, column \<open>0\<close> or column \<open>cols - 1\<close> holds
  \<open>0\<close>, whatever the sources, the walls and the other parameters are.
\<close>

theorem absorbing_edges_zero:
  assumes st: "step time s = Some s'"
    and ab: "\<not> reflectiveBoundaries s"
    and len: "length (current s) = nat (cols s * rows s)"
    and ok: "mulN (waveSpeed s) (dt s) \<noteq> NaN"
    and xy: "0 \<le> x" "x < cols s" "0 \<le> y" "y < rows s"
    and edge: "x = 0 \<or> x = cols s - 1 \<or> y = 0 \<or> y = rows s - 1"
  shows "inRange (current s') (getIndex s' x y) \<and> rd (current s') (getIndex s' x y) = Fin 0"
proof -
  from step_last_substep[OF st ok] obtain u c p srcs where
    s': "s' = stabilityGuard (updateEnergy (substep (subDt s) u))"
    and u: "u = (rebuildWallMask s)\<lparr>sources := srcs, current := c, previous := p\<rparr>"
    and lc: "length c = length (current s)" by blast
  have du: "cols u = cols s" "rows u = rows s" "\<not> reflectiveBoundaries u"
    unfolding u using ab by (simp_all add: rebuildWallMask_def)
  define d where "d = mulN (mulN (waveSpeed u) (waveSpeed u)) (mulN (subDt s) (subDt s))"
  define w where "w = u\<lparr>current := fst (sweep u d), previous := snd (sweep u d)\<rparr>"
  have cs: "current (substep (subDt s) u) = absorbEdges w"
    using du(3) by (simp add: current_substep w_def d_def)
  have dw: "cols w = cols s" "rows w = rows s"
    by (simp_all add: w_def du)
  have lw: "length (current w) = nat (cols w * rows w)"
    using length_sweep[of u d] lc len by (simp add: w_def u dw du)
  have gi: "getIndex w x y = getIndex s' x y"
    by (simp add: getIndex_def dw step_dims(1)[OF st])
  have z: "rd (absorbEdges w) (getIndex w x y) = Fin 0"
    by (rule absorbEdges_zero[OF _ _ _ _ lw]) (use xy edge dw in simp_all)
  have rng: "inRange (absorbEdges w) (getIndex w x y)"
    using inRange_getIndex[of x w y "current w"] xy dw lw by (simp add: inRange_def)
  have rs: "inRange (current s') (getIndex s' x y)"
    using rng step_dims(3)[OF st] lw len dw by (simp add: inRange_def gi)
  from current_stabilityGuard[of "updateEnergy (substep (subDt s) u)"]
  have "rd (current s') (getIndex s' x y) = Fin 0"
  proof
    assume "current (stabilityGuard (updateEnergy (substep (subDt s) u)))
              = current (updateEnergy (substep (subDt s) u))"
    then show ?thesis using z by (simp add: s'[symmetric] cs gi)
  next
    assume "current (stabilityGuard (updateEnergy (substep (subDt s) u)))
              = fill0 (current (updateEnergy (substep (subDt s) u)))"
    then have "current s' = fill0 (absorbEdges w)" by (simp add: s'[symmetric] cs)
    then show ?thesis using rng by (simp add: rd_fill0 gi)
  qed
  with rs show ?thesis by blast
qed

lemma edgeGrid_emit:
  "emit (Fin (pi / 2)) (moveSources (rebuildWallMask edgeGrid)) = edgeEmitted"
  by (simp add: emit_def moveSources_def rebuildWallMask_def edgeEmitted_def
      edgeGrid_def addSource_def grid3x3_def mkSimulation_def fillMask0_def orbitStep_def
      inject_def advance_def geN_def leN_def numI_def wrN_def rdN_def wr_def rd_def inRange_def
      orZero_def Let_def eval_nat_numeral)

lemma edgeGrid_current:
  "current (substep (Fin 1) edgeEmitted) =
     [Fin 0, Fin 0, Fin 0, Fin 0, Fin 0, Fin 0, Fin 0, Fin 0, Fin 0]"
  by code_simp

lemma edgeGrid_step: "step (Fin (pi / 2)) edgeGrid = Some (substep (Fin 1) edgeEmitted)"
proof -
  have p: "waveSpeed edgeGrid = Fin (1 / 2)" "dt edgeGrid = Fin 1"
    by (simp_all add: edgeGrid_def addSource_def grid3x3_def mkSimulation_def)
  have e: "\<not> energyTrailEnabled edgeEmitted"
    by (simp add: edgeEmitted_def edgeGrid_def addSource_def grid3x3_def mkSimulation_def)
  have "stabilityGuard (substep (Fin 1) edgeEmitted) = substep (Fin 1) edgeEmitted"
    by (rule stabilityGuard_finite) (simp_all add: edgeGrid_current)
  then show ?thesis
    unfolding step_once(4)[OF p] edgeGrid_emit energy_off_substep[OF e] by simp
qed

text \<open>
  On the grid with a source on the corner cell, at \<open>time = pi / 2\<close>: the
  source loop puts \<open>1\<close> into cell \<open>(0, 0)\<close>, and the step returns with \<open>0\<close>
  there.
\<close>

theorem absorbing_edges_zero_witness:
  "rd (current (emit (Fin (pi / 2)) (moveSources (rebuildWallMask edgeGrid)))) 0 = Fin 1 \<and>
   step (Fin (pi / 2)) edgeGrid = Some (substep (Fin 1) edgeEmitted) \<and>
   getIndex (substep (Fin 1) edgeEmitted) 0 0 = 0 \<and>
   inRange (current (substep (Fin 1) edgeEmitted)) 0 \<and>
   rd (current (substep (Fin 1) edgeEmitted)) 0 = Fin 0"
proof -
  have q: "\<not> reflectiveBoundaries edgeGrid"
      "length (current edgeGrid) = nat (cols edgeGrid * rows edgeGrid)"
      "(0::int) \<le> 0" "(0::int) < cols edgeGrid" "(0::int) < rows edgeGrid"
      "(0::int) = 0 \<or> (0::int) = cols edgeGrid - 1 \<or> (0::int) = 0 \<or> (0::int) = rows edgeGrid - 1"
    and n: "mulN (waveSpeed edgeGrid) (dt edgeGrid) \<noteq> NaN"
    by (simp_all add: edgeGrid_def addSource_def grid3x3_def mkSimulation_def)
  have g: "getIndex (substep (Fin 1) edgeEmitted) 0 0 = 0"
    by (simp add: getIndex_def)
  have e: "rd (current (emit (Fin (pi / 2)) (moveSources (rebuildWallMask edgeGrid)))) 0 = Fin 1"
    by (simp add: edgeGrid_emit edgeEmitted_def rd_def inRange_def)
  from absorbing_edges_zero[OF edgeGrid_step q(1,2) n q(3,4,3,5,6)] g e edgeGrid_step
  show ?thesis by simp
qed

subsection \<open>A wave speed that is not a number\<close>

lemma edgeNaNGrid_emit:
  "emit (Fin (pi / 2)) (moveSources (rebuildWallMask edgeNaNGrid)) = edgeNaNEmitted"
  by (simp add: emit_def moveSources_def rebuildWallMask_def edgeNaNEmitted_def edgeNaNGrid_def
      edgeGrid_def addSource_def grid3x3_def mkSimulation_def fillMask0_def orbitStep_def
      inject_def advance_def geN_def leN_def numI_def wrN_def rdN_def wr_def rd_def inRange_def
      orZero_def Let_def eval_nat_numeral)

lemma edgeNaNGrid_step: "step (Fin (pi / 2)) edgeNaNGrid = Some edgeNaNEmitted"
proof -
  have w: "waveSpeed edgeNaNGrid = NaN" by (simp add: edgeNaNGrid_def)
  have e: "updateEnergy edgeNaNEmitted = edgeNaNEmitted"
    by (simp add: updateEnergy_def edgeNaNEmitted_def edgeNaNGrid_def edgeGrid_def
        addSource_def grid3x3_def mkSimulation_def)
  have "stabilityGuard edgeNaNEmitted = edgeNaNEmitted"
    by (rule stabilityGuard_finite) (simp_all add: edgeNaNEmitted_def)
  then show ?thesis
    unfolding step_no_substep[OF subSteps_NaN(1)[OF w]] edgeNaNGrid_emit e by simp
qed

lemma edgeNaNGrid_sweep:
  "current (substep NaN edgeNaNEmitted) =
     [Fin 0, Fin 0, Fin 0, Fin 0, NaN, Fin 0, Fin 0, Fin 0, Fin 0]"
  by code_simp

text \<open>
  C7 as stated fails when \<open>waveSpeed\<close> is NaN. The grid is
  \<^verbatim>\<open>new WaveSimulation(12, 12, 4)\<close> with absorbing boundaries, after
  \<^verbatim>\<open>addSource(0, 0, 1, 1)\<close> and \<^verbatim>\<open>waveSpeed = NaN\<close>. \<^verbatim>\<open>step(Math.PI / 2)\<close>
  adds \<open>1\<close> to the corner cell, runs no sub-step, so that the boundary
  conditions are never applied, and returns with \<open>1\<close> in cell \<open>(0, 0)\<close>.
\<close>

theorem absorbing_edges_counterexample:
  "constructor (Fin 12) (Fin 12) (Fin 4) = Inr grid3x3 \<and>
   edgeNaNGrid = (addSource (Fin 0) (Fin 0) (Fin 1) (Fin 1) grid3x3)\<lparr>waveSpeed := NaN\<rparr> \<and>
   \<not> reflectiveBoundaries edgeNaNGrid \<and>
   step (Fin (pi / 2)) edgeNaNGrid = Some edgeNaNEmitted \<and>
   getIndex edgeNaNEmitted 0 0 = 0 \<and>
   inRange (current edgeNaNEmitted) (getIndex edgeNaNEmitted 0 0) \<and>
   rd (current edgeNaNEmitted) (getIndex edgeNaNEmitted 0 0) = Fin 1"
proof -
  have "\<not> reflectiveBoundaries edgeNaNGrid"
    by (simp add: edgeNaNGrid_def edgeGrid_def addSource_def grid3x3_def mkSimulation_def)
  moreover have "getIndex edgeNaNEmitted 0 0 = 0" by (simp add: getIndex_def)
  moreover have "inRange (current edgeNaNEmitted) 0" "rd (current edgeNaNEmitted) 0 = Fin 1"
    by (simp_all add: edgeNaNEmitted_def rd_def inRange_def)
  ultimately show ?thesis
    using constructor_grid3x3 edgeNaNGrid_step by (simp add: edgeNaNGrid_def edgeGrid_def)
qed

text \<open>
  C1 as stated fails on the same input. The number of sub-steps is NaN,
  not \<open>max(1, \<dots>) \<ge> 1\<close>; \<^verbatim>\<open>step\<close> returns the state its source loop left,
  without a sweep; a single sweep would have changed that state.
\<close>

theorem substep_count_counterexample:
  "waveSpeed edgeNaNGrid = NaN \<and> subSteps edgeNaNGrid = NaN \<and> subDt edgeNaNGrid = NaN \<and>
   emit (Fin (pi / 2)) (moveSources (rebuildWallMask edgeNaNGrid)) = edgeNaNEmitted \<and>
   step (Fin (pi / 2)) edgeNaNGrid = Some edgeNaNEmitted \<and>
   current edgeNaNEmitted = [Fin 1, Fin 0, Fin 0, Fin 0, Fin 0, Fin 0, Fin 0, Fin 0, Fin 0] \<and>
   current (substep NaN edgeNaNEmitted) =
     [Fin 0, Fin 0, Fin 0, Fin 0, NaN, Fin 0, Fin 0, Fin 0, Fin 0]"
proof -
  have w: "waveSpeed edgeNaNGrid = NaN" by (simp add: edgeNaNGrid_def)
  have c: "current edgeNaNEmitted =
             [Fin 1, Fin 0, Fin 0, Fin 0, Fin 0, Fin 0, Fin 0, Fin 0, Fin 0]"
    by (simp add: edgeNaNEmitted_def)
  from w subSteps_NaN[OF w] edgeNaNGrid_emit edgeNaNGrid_step c edgeNaNGrid_sweep
  show ?thesis by (intro conjI)
qed

section \<open>Orbiting sources\<close>

lemma orbitGrid_sources:
  "sources orbitGrid =
     [\<lparr> src_x = Fin 1, src_y = Fin 2, frequency = Fin 1, amplitude = Fin 1, phase = Fin 0,
        active = True, vx = None, vy = None, orbitCenterX = Some (Fin 0),
        orbitCenterY = Some (Fin 2), orbitRadius = Some (Fin 1), orbitSpeed = Some (Fin pi),
        orbitAngle = Some (Fin 0) \<rparr>]"
  by (simp add: orbitGrid_def addOrbitalSource_def grid3x3_def mkSimulation_def Let_def)

lemma orbitGrid_moved:
  "sources (moveSources (rebuildWallMask orbitGrid)) =
     [\<lparr> src_x = Fin (- 1), src_y = Fin 2, frequency = Fin 1, amplitude = Fin 1, phase = Fin 0,
        active = True, vx = Some (Fin (- 1 / 5)), vy = Some (Fin 0), orbitCenterX = Some (Fin 0),
        orbitCenterY = Some (Fin 2), orbitRadius = Some (Fin 1), orbitSpeed = Some (Fin pi),
        orbitAngle = Some (Fin pi) \<rparr>]"
  by (simp add: moveSources_def orbitGrid_sources orbitStep_def subN_def Let_def)

lemma orbitGrid_emitted:
  "sources (emit (Fin 0) (moveSources (rebuildWallMask orbitGrid))) =
     [\<lparr> src_x = Fin (- 6 / 5), src_y = Fin 2, frequency = Fin 1, amplitude = Fin 1, phase = Fin 0,
        active = True, vx = Some (Fin (- 1 / 5)), vy = Some (Fin 0), orbitCenterX = Some (Fin 0),
        orbitCenterY = Some (Fin 2), orbitRadius = Some (Fin 1), orbitSpeed = Some (Fin pi),
        orbitAngle = Some (Fin pi) \<rparr>]"
proof -
  have d: "dt (moveSources (rebuildWallMask orbitGrid)) = Fin 1"
    by (simp add: moveSources_def rebuildWallMask_def orbitGrid_def addOrbitalSource_def
        grid3x3_def mkSimulation_def Let_def)
  show ?thesis
    by (simp add: sources_emit orbitGrid_moved inject_def advance_def d geN_def leN_def Let_def
        split: prod.splits)
qed


text \<open>
  C5. The claim: a source with orbital parameters is moved by its orbit only,
  wherever the centre of the orbit is, and never also by \<open>velocity * dt\<close>.
  The first loop of \<^verbatim>\<open>step\<close> recognises an orbital source by
  \<open>orbitCenterX != null\<close>, the second by the truthiness of \<open>orbitCenterX\<close>,
  which fails for a centre at \<open>x = 0\<close>. For the source of \<open>orbitGrid\<close> the
  orbit gives \<open>x = -1\<close> and \<open>vx = 0.1 * (-1 - 1) = -0.2\<close>, and the step ends
  with \<open>x = -1 + (-0.2) * dt = -1.2\<close>.
\<close>

theorem orbit_centre_zero_advanced_twice:
  "\<exists>s'. step (Fin 0) orbitGrid = Some s' \<and>
        map src_x (sources (moveSources (rebuildWallMask orbitGrid))) = [Fin (- 1)] \<and>
        map vx (sources s') = [Some (Fin (- 1 / 5))] \<and>
        map src_x (sources s') = [Fin (- 6 / 5)]"
proof -
  have p: "waveSpeed orbitGrid = Fin (1 / 2)" "dt orbitGrid = Fin 1"
    by (simp_all add: orbitGrid_def addOrbitalSource_def grid3x3_def mkSimulation_def Let_def)
  let ?e = "emit (Fin 0) (moveSources (rebuildWallMask orbitGrid))"
  have "sources (stabilityGuard (updateEnergy (substep (Fin 1) ?e))) = sources ?e"
    using sources_funpow_substep[where d="Fin 1" and m=1 and s="?e"] by simp
  with step_once(4)[OF p, of "Fin 0"] show ?thesis
    by (simp add: orbitGrid_moved orbitGrid_emitted)
qed

section \<open>Sampling along a line\<close>

lemma reflGrid_emit:
  "emit (Fin (pi / 2)) (moveSources (rebuildWallMask reflGrid)) = reflEmitted"
  by (simp add: emit_def moveSources_def rebuildWallMask_def reflGrid_def reflEmitted_def
      sourceGrid_def addSource_def grid3x3_def mkSimulation_def fillMask0_def orbitStep_def
      inject_def advance_def geN_def leN_def numI_def wrN_def rdN_def wr_def rd_def inRange_def
      orZero_def Let_def eval_nat_numeral)

lemma sourceGrid_emit:
  "emit (Fin (pi / 2)) (moveSources (rebuildWallMask sourceGrid)) = sourceEmitted"
  by (simp add: emit_def moveSources_def rebuildWallMask_def sourceEmitted_def
      sourceGrid_def addSource_def grid3x3_def mkSimulation_def fillMask0_def orbitStep_def
      inject_def advance_def geN_def leN_def numI_def wrN_def rdN_def wr_def rd_def inRange_def
      orZero_def Let_def eval_nat_numeral)

lemma reflGrid_current:
  "current (substep (Fin 1) reflEmitted) =
     [Fin (199 / 200), Fin (199 / 200), Fin (199 / 200), Fin (199 / 200), Fin (199 / 200),
      Fin (199 / 200), Fin (199 / 200), Fin (199 / 200), Fin (199 / 200)]"
  by code_simp

lemma sourceGrid_current:
  "current (substep (Fin 1) sourceEmitted) =
     [Fin 0, Fin 0, Fin 0, Fin 0, Fin (199 / 200), Fin 0, Fin 0, Fin 0, Fin 0]"
  by code_simp

lemma reflGrid_probe:
  "fst (sampleLine (Fin (- 2)) (Fin 2) (Fin (- 2)) (Fin 2) 2 (substep (Fin 1) reflEmitted)) =
     [Fin (199 / 200), Fin (199 / 200)]"
  "getValue (substep (Fin 1) reflEmitted) (Fin (- 2)) (Fin 2) = Fin 0"
  by code_simp+

lemma sourceGrid_probe:
  "fst (sampleLine (Fin 6) (Fin 6) (Fin 6) (Fin 6) 1 (substep (Fin 1) sourceEmitted)) = [Fin 0]"
  "getValue (substep (Fin 1) sourceEmitted) (Fin 6) (Fin 6) = Fin (199 / 200)"
  by code_simp+

lemma reflGrid_step: "step (Fin (pi / 2)) reflGrid = Some (substep (Fin 1) reflEmitted)"
proof -
  have p: "waveSpeed reflGrid = Fin (1 / 2)" "dt reflGrid = Fin 1"
    by (simp_all add: reflGrid_def sourceGrid_def addSource_def grid3x3_def mkSimulation_def)
  have e: "\<not> energyTrailEnabled reflEmitted"
    by (simp add: reflEmitted_def reflGrid_def sourceGrid_def addSource_def grid3x3_def
        mkSimulation_def)
  have "stabilityGuard (substep (Fin 1) reflEmitted) = substep (Fin 1) reflEmitted"
    by (rule stabilityGuard_finite) (simp_all add: reflGrid_current)
  then show ?thesis
    unfolding step_once(4)[OF p] reflGrid_emit energy_off_substep[OF e] by simp
qed

lemma sourceGrid_step: "step (Fin (pi / 2)) sourceGrid = Some (substep (Fin 1) sourceEmitted)"
proof -
  have p: "waveSpeed sourceGrid = Fin (1 / 2)" "dt sourceGrid = Fin 1"
    by (simp_all add: sourceGrid_def addSource_def grid3x3_def mkSimulation_def)
  have e: "\<not> energyTrailEnabled sourceEmitted"
    by (simp add: sourceEmitted_def sourceGrid_def addSource_def grid3x3_def
        mkSimulation_def)
  have "stabilityGuard (substep (Fin 1) sourceEmitted) = substep (Fin 1) sourceEmitted"
    by (rule stabilityGuard_finite) (simp_all add: sourceGrid_current)
  then show ?thesis
    unfolding step_once(4)[OF p] sourceGrid_emit energy_off_substep[OF e] by simp
qed


text \<open>
  C3. The claim: the \<open>i\<close>-th value of \<^verbatim>\<open>sampleLine\<close> is \<^verbatim>\<open>getValue\<close> at the
  \<open>i\<close>-th interpolated point, and a point outside the grid gives \<open>0\<close>.
  \<^verbatim>\<open>sampleLine\<close> converts a coordinate to a cell with \<open>| 0\<close>, which truncates
  towards zero where \<^verbatim>\<open>getValue\<close> takes the floor: the point \<open>(-2, 2)\<close>, left
  of the grid, is read as cell \<open>(0, 0)\<close>. After one step of the reflective
  grid both samples of the line from \<open>(-2, 2)\<close> to \<open>(-2, 2)\<close> are \<open>0.995\<close>,
  and \<^verbatim>\<open>getValue(-2, 2)\<close> is \<open>0\<close>. With \<open>numSamples = 1\<close> the step
  \<open>1 / (numSamples - 1)\<close> is infinite, the point is NaN and the sample is
  cell \<open>(0, 0)\<close> again: on the absorbing grid the one sample at \<open>(6, 6)\<close> is
  \<open>0\<close> and \<^verbatim>\<open>getValue(6, 6)\<close> is \<open>0.995\<close>.
\<close>

theorem sampleLine_truncates:
  "(\<exists>s'. step (Fin (pi / 2)) reflGrid = Some s' \<and>
         fst (sampleLine (Fin (- 2)) (Fin 2) (Fin (- 2)) (Fin 2) 2 s') =
           [Fin (199 / 200), Fin (199 / 200)] \<and>
         getValue s' (Fin (- 2)) (Fin 2) = Fin 0) \<and>
   (\<exists>s'. step (Fin (pi / 2)) sourceGrid = Some s' \<and>
         fst (sampleLine (Fin 6) (Fin 6) (Fin 6) (Fin 6) 1 s') = [Fin 0] \<and>
         getValue s' (Fin 6) (Fin 6) = Fin (199 / 200))"
  using reflGrid_step reflGrid_probe sourceGrid_step sourceGrid_probe by blast

section \<open>The amplitude clamp\<close>

lemma bounded50_cases: "bounded50 v \<longleftrightarrow> v = NaN \<or> (\<exists>r. v = Fin r \<and> - 50 \<le> r \<and> r \<le> 50)"
  by (cases v) (auto simp: bounded50_def gtN_def)

lemma bounded50_clamp50 [simp]: "bounded50 (clamp50 v)"
  by (cases v) (auto simp: bounded50_def clamp50_def gtN_def)

lemma bounded50_simps [simp]: "bounded50 NaN" "bounded50 (Fin 0)"
  by (simp_all add: bounded50_def gtN_def)

lemma fold_concat_lists: "fold f (concat xss) = fold (fold f) xss"
  by (induction xss) simp_all

lemma rd_wr_same: "rd (wr xs i v) i = (if inRange xs i then v else NaN)"
  by (simp add: rd_def wr_def inRange_def nat_less_iff)

lemma sweep_flat:
  "sweep s c = fold (updateCell c (damping s) (cols s) (wallMask s)) (interiorIndices s)
                 (current s, previous s)"
  by (simp add: sweep_def interiorIndices_def fold_concat_lists fold_map comp_def)

lemma updateCell_other:
  "j \<noteq> idx \<Longrightarrow> rd (fst (updateCell c d n m idx cp)) j = rd (fst cp) j"
  "j \<noteq> idx \<Longrightarrow> rd (snd (updateCell c d n m idx cp)) j = rd (snd cp) j"
  by (cases cp; simp add: updateCell_def Let_def rd_wr)+

lemma updateCell_bounded: "bounded50 (rd (fst (updateCell c d n m idx cp)) idx)"
  by (cases cp) (simp add: updateCell_def Let_def rd_wr_same)

lemma fold_updateCell_bounded:
  "j \<in> set idxs \<or> bounded50 (rd (fst cp) j) \<Longrightarrow>
   bounded50 (rd (fst (fold (updateCell c d n m) idxs cp)) j)"
proof (induction idxs arbitrary: cp)
  case Nil
  then show ?case by simp
next
  case (Cons idx idxs)
  have "j \<in> set idxs \<or> bounded50 (rd (fst (updateCell c d n m idx cp)) j)"
  proof (cases "j = idx")
    case True
    then show ?thesis using updateCell_bounded[of c d n m idx cp] by simp
  next
    case False
    with Cons.prems show ?thesis by (auto simp: updateCell_other)
  qed
  from Cons.IH[OF this] show ?case by simp
qed

lemma sweep_interior_bounded:
  "j \<in> set (interiorIndices s) \<Longrightarrow> bounded50 (rd (fst (sweep s c)) j)"
  unfolding sweep_flat by (rule fold_updateCell_bounded) simp

lemma sweep_other:
  "j \<notin> set (interiorIndices s) \<Longrightarrow> rd (fst (sweep s c)) j = rd (current s) j"
proof -
  have "j \<notin> set idxs \<Longrightarrow> rd (fst (fold (updateCell c d n m) idxs cp)) j = rd (fst cp) j"
    for idxs d n m cp
    by (induction idxs arbitrary: cp) (auto simp: updateCell_other)
  then show "j \<notin> set (interiorIndices s) \<Longrightarrow> rd (fst (sweep s c)) j = rd (current s) j"
    unfolding sweep_flat by simp
qed

text \<open>Cells and indices.\<close>

lemma getIndex_inj:
  assumes "getIndex s x y = getIndex s x' y'" "0 \<le> x" "x < cols s" "0 \<le> x'" "x' < cols s"
  shows "x = x' \<and> y = y'"
proof -
  from assms have c: "0 < cols s" by simp
  have "(y * cols s + x) div cols s = y" "(y' * cols s + x') div cols s = y'"
    using assms c by simp_all
  moreover have "(y * cols s + x) mod cols s = x" "(y' * cols s + x') mod cols s = x'"
    using assms c by simp_all
  ultimately show ?thesis using assms(1) by (simp add: getIndex_def)
qed

lemma interiorIndices_iff:
  "j \<in> set (interiorIndices s) \<longleftrightarrow>
     (\<exists>x y. 1 \<le> x \<and> x \<le> cols s - 2 \<and> 1 \<le> y \<and> y \<le> rows s - 2 \<and> j = getIndex s x y)"
proof -
  have "set (interiorIndices s) =
          (\<Union>y\<in>{1 .. rows s - 2}. (\<lambda>x. y * cols s + x) ` {1 .. cols s - 2})"
    by (simp only: interiorIndices_def set_concat set_map set_upto image_image)
  then show ?thesis
    unfolding getIndex_def by (auto simp only: UN_iff image_iff atLeastAtMost_iff Bex_def)
qed

lemma index_cell:
  assumes "inRange xs j" "length xs = nat (cols s * rows s)" "0 \<le> cols s" "0 \<le> rows s"
  obtains x y where "j = getIndex s x y" "0 \<le> x" "x < cols s" "0 \<le> y" "y < rows s"
proof -
  from assms have j: "0 \<le> j" "j < cols s * rows s" by (auto simp: inRange_def)
  then have c: "0 < cols s" using assms(3,4)
    by (metis less_le mult_zero_left not_less)
  let ?x = "j mod cols s" and ?y = "j div cols s"
  have "j = getIndex s ?x ?y" by (simp add: getIndex_def)
  moreover have "0 \<le> ?x" "?x < cols s" using c by simp_all
  moreover have "0 \<le> ?y" using j c by (simp add: pos_imp_zdiv_nonneg_iff)
  moreover have "?y < rows s"
  proof (rule ccontr)
    assume "\<not> ?y < rows s"
    then have "rows s * cols s \<le> ?y * cols s" using c by (intro mult_right_mono) auto
    also have "\<dots> \<le> j" using c by (metis mult.commute mult_div_mod_eq add_increasing2 order_refl pos_mod_sign)
    finally show False using j by (simp add: mult.commute)
  qed
  ultimately show ?thesis by (rule that)
qed

lemma rd_out: "\<not> inRange xs i \<Longrightarrow> rd xs i = NaN"
  by (simp add: rd_def)

lemma copy_loop_bounded:
  assumes "\<forall>k\<in>set ks. \<forall>k'\<in>set ks. b k \<noteq> a k' \<and> b k \<noteq> c k' \<and> d k \<noteq> a k' \<and> d k \<noteq> c k'"
    and "\<forall>k\<in>set ks. (a k = i \<longrightarrow> bounded50 (rd cur (b k))) \<and>
                      (c k = i \<longrightarrow> bounded50 (rd cur (d k)))"
    and "(\<exists>k\<in>set ks. a k = i \<or> c k = i) \<or> bounded50 (rd cur i)"
  shows "bounded50 (rd (fold (\<lambda>k cur. let cur1 = wr cur (a k) (rd cur (b k))
                                       in wr cur1 (c k) (rd cur1 (d k))) ks cur) i)"
  using assms
proof (induction ks arbitrary: cur)
  case Nil
  then show ?case by simp
next
  case (Cons k ks)
  let ?cur' = "wr (wr cur (a k) (rd cur (b k))) (c k) (rd cur (d k))"
  have dk: "d k \<noteq> a k" using Cons.prems(1) by simp
  have step: "(let cur1 = wr cur (a k) (rd cur (b k)) in wr cur1 (c k) (rd cur1 (d k))) = ?cur'"
    using dk by (simp add: Let_def rd_wr)
  have other: "rd ?cur' j = rd cur j" if "j \<noteq> a k" "j \<noteq> c k" for j
    using that by (simp add: rd_wr)
  have wa: "bounded50 (rd ?cur' i)" if "a k = i \<or> c k = i \<or> bounded50 (rd cur i)"
  proof (cases "i = c k")
    case True
    then have "bounded50 (rd cur (d k))" using Cons.prems(2) by simp
    with True show ?thesis by (simp add: rd_wr_same)
  next
    case nc: False
    show ?thesis
    proof (cases "i = a k")
      case True
      then have "bounded50 (rd cur (b k))" using Cons.prems(2) by simp
      with True nc show ?thesis by (auto simp: rd_wr rd_out)
    next
      case False
      with nc that show ?thesis by (simp add: other)
    qed
  qed
  have 1: "\<forall>k\<in>set ks. \<forall>k'\<in>set ks. b k \<noteq> a k' \<and> b k \<noteq> c k' \<and> d k \<noteq> a k' \<and> d k \<noteq> c k'"
    using Cons.prems(1) by simp
  have 2: "\<forall>k'\<in>set ks. (a k' = i \<longrightarrow> bounded50 (rd ?cur' (b k'))) \<and>
                        (c k' = i \<longrightarrow> bounded50 (rd ?cur' (d k')))"
  proof
    fix k' assume k': "k' \<in> set ks"
    then have "b k' \<noteq> a k" "b k' \<noteq> c k" "d k' \<noteq> a k" "d k' \<noteq> c k"
      using Cons.prems(1) by simp_all
    then have "rd ?cur' (b k') = rd cur (b k')" "rd ?cur' (d k') = rd cur (d k')"
      by (simp_all add: other)
    with Cons.prems(2) k' show "(a k' = i \<longrightarrow> bounded50 (rd ?cur' (b k'))) \<and>
                        (c k' = i \<longrightarrow> bounded50 (rd ?cur' (d k')))" by simp
  qed
  have 3: "(\<exists>k\<in>set ks. a k = i \<or> c k = i) \<or> bounded50 (rd ?cur' i)"
    using Cons.prems(3) wa by auto
  show ?case
    unfolding fold_Cons o_apply step by (rule Cons.IH[OF 1 2 3])
qed

lemma copy_loop_other:
  "\<forall>k\<in>set ks. i \<noteq> a k \<and> i \<noteq> c k \<Longrightarrow>
   rd (fold (\<lambda>k cur. let cur1 = wr cur (a k) (rd cur (b k))
                      in wr cur1 (c k) (rd cur1 (d k))) ks cur) i = rd cur i"
  by (induction ks arbitrary: cur) (simp_all add: Let_def rd_wr)

lemma cell_interior_or_edge:
  assumes "0 \<le> x" "x < cols s" "0 \<le> y" "y < rows s"
  shows "getIndex s x y \<in> set (interiorIndices s) \<or>
         x = 0 \<or> x = cols s - 1 \<or> y = 0 \<or> y = rows s - 1"
proof -
  have "1 \<le> x \<and> x \<le> cols s - 2 \<and> 1 \<le> y \<and> y \<le> rows s - 2 \<or>
        x = 0 \<or> x = cols s - 1 \<or> y = 0 \<or> y = rows s - 1"
    using assms by linarith
  then show ?thesis unfolding interiorIndices_iff by blast
qed

lemma absorbEdges_bounded:
  assumes wf: "0 \<le> cols s" "0 \<le> rows s" "length (current s) = nat (cols s * rows s)"
    and int: "\<forall>j\<in>set (interiorIndices s). bounded50 (rd (current s) j)"
  shows "bounded50 (rd (absorbEdges s) i)"
proof (cases "inRange (current s) i")
  case False
  then have "\<not> inRange (absorbEdges s) i" by (simp add: inRange_def)
  then show ?thesis by (simp add: rd_out)
next
  case True
  from index_cell[OF True wf(3) wf(1,2)] obtain x y where
    xy: "i = getIndex s x y" "0 \<le> x" "x < cols s" "0 \<le> y" "y < rows s" by blast
  from cell_interior_or_edge[OF xy(2-5)] show ?thesis
  proof
    assume "getIndex s x y \<in> set (interiorIndices s)"
    then have b: "bounded50 (rd (current s) i)" using int xy(1) by simp
    show ?thesis
      unfolding absorbEdges_def rd_fold_wr0 using b by simp
  next
    assume "x = 0 \<or> x = cols s - 1 \<or> y = 0 \<or> y = rows s - 1"
    from absorbEdges_zero[OF xy(2-5) wf(3) this] show ?thesis by (simp add: xy(1))
  qed
qed

lemma reflectEdges_bounded:
  assumes big: "3 \<le> cols s" "3 \<le> rows s"
    and len: "length (current s) = nat (cols s * rows s)"
    and int: "\<forall>j\<in>set (interiorIndices s). bounded50 (rd (current s) j)"
  shows "bounded50 (rd (reflectEdges s) i)"
proof -
  let ?cur1 = "fold (\<lambda>x cur. let cur1 = wr cur (getIndex s x 0) (rd cur (getIndex s x 1))
                in wr cur1 (getIndex s x (rows s - 1)) (rd cur1 (getIndex s x (rows s - 2))))
          [0 .. cols s - 1] (current s)"
  have inj: "getIndex s x y = getIndex s x' y' \<Longrightarrow> 0 \<le> x \<Longrightarrow> x < cols s \<Longrightarrow>
             0 \<le> x' \<Longrightarrow> x' < cols s \<Longrightarrow> x = x' \<and> y = y'" for x y x' y'
    by (rule getIndex_inj)
  have disx: "getIndex s k y \<noteq> getIndex s k' y'"
    if "k \<in> set [0 .. cols s - 1]" "k' \<in> set [0 .. cols s - 1]" "y \<noteq> y'" for k k' y y'
  proof
    assume e: "getIndex s k y = getIndex s k' y'"
    from that have "0 \<le> k" "k < cols s" "0 \<le> k'" "k' < cols s" by simp_all
    from inj[OF e this] that(3) show False by simp
  qed
  have disy: "getIndex s x k \<noteq> getIndex s x' k'"
    if "0 \<le> x" "x < cols s" "0 \<le> x'" "x' < cols s" "x \<noteq> x'" for k k' x x'
  proof
    assume e: "getIndex s x k = getIndex s x' k'"
    from inj[OF e that(1-4)] that(5) show False by simp
  qed
  have interior: "bounded50 (rd (current s) (getIndex s x y))"
    if "1 \<le> x" "x \<le> cols s - 2" "1 \<le> y" "y \<le> rows s - 2" for x y
  proof -
    have "getIndex s x y \<in> set (interiorIndices s)"
      unfolding interiorIndices_iff using that by blast
    with int show ?thesis by blast
  qed
  \<comment> \<open>after the loop over the columns, columns 1 to cols - 2 are bounded in every row\<close>
  have X: "bounded50 (rd ?cur1 (getIndex s x y))"
    if x: "1 \<le> x" "x \<le> cols s - 2" and y: "0 \<le> y" "y \<le> rows s - 1" for x y
  proof (rule copy_loop_bounded)
    show "\<forall>k\<in>set [0 .. cols s - 1]. \<forall>k'\<in>set [0 .. cols s - 1].
            getIndex s k 1 \<noteq> getIndex s k' 0 \<and> getIndex s k 1 \<noteq> getIndex s k' (rows s - 1) \<and>
            getIndex s k (rows s - 2) \<noteq> getIndex s k' 0 \<and>
            getIndex s k (rows s - 2) \<noteq> getIndex s k' (rows s - 1)"
      by (intro ballI conjI disx) (use big in simp_all)
    show "\<forall>k\<in>set [0 .. cols s - 1].
            (getIndex s k 0 = getIndex s x y \<longrightarrow> bounded50 (rd (current s) (getIndex s k 1))) \<and>
            (getIndex s k (rows s - 1) = getIndex s x y \<longrightarrow>
               bounded50 (rd (current s) (getIndex s k (rows s - 2))))"
    proof (intro ballI conjI impI)
      fix k assume k: "k \<in> set [0 .. cols s - 1]" and e: "getIndex s k 0 = getIndex s x y"
      from inj[OF e] k x have "k = x" by simp
      then show "bounded50 (rd (current s) (getIndex s k 1))"
        using interior[of x 1] x big by simp
    next
      fix k assume k: "k \<in> set [0 .. cols s - 1]"
        and e: "getIndex s k (rows s - 1) = getIndex s x y"
      from inj[OF e] k x have "k = x" by simp
      then show "bounded50 (rd (current s) (getIndex s k (rows s - 2)))"
        using interior[of x "rows s - 2"] x big by simp
    qed
    show "(\<exists>k\<in>set [0 .. cols s - 1]. getIndex s k 0 = getIndex s x y \<or>
             getIndex s k (rows s - 1) = getIndex s x y) \<or>
          bounded50 (rd (current s) (getIndex s x y))"
    proof (cases "y = 0 \<or> y = rows s - 1")
      case True
      moreover have "x \<in> set [0 .. cols s - 1]" using x by simp
      ultimately show ?thesis by blast
    next
      case False
      then have "1 \<le> y" "y \<le> rows s - 2" using y by linarith+
      from interior[OF x this] show ?thesis by blast
    qed
  qed
  have l1: "length ?cur1 = length (current s)"
    by (simp add: length_fold_pres Let_def)
  show ?thesis
  proof (cases "inRange (current s) i")
    case False
    then have "\<not> inRange (reflectEdges s) i" by (simp add: inRange_def)
    then show ?thesis by (simp add: rd_out)
  next
    case True
    from index_cell[OF True len] big obtain x y where
      xy: "i = getIndex s x y" "0 \<le> x" "x < cols s" "0 \<le> y" "y < rows s" by auto
    show ?thesis
      unfolding reflectEdges_def
    proof (rule copy_loop_bounded)
      show "\<forall>k\<in>set [0 .. rows s - 1]. \<forall>k'\<in>set [0 .. rows s - 1].
              getIndex s 1 k \<noteq> getIndex s 0 k' \<and> getIndex s 1 k \<noteq> getIndex s (cols s - 1) k' \<and>
              getIndex s (cols s - 2) k \<noteq> getIndex s 0 k' \<and>
              getIndex s (cols s - 2) k \<noteq> getIndex s (cols s - 1) k'"
        by (intro ballI conjI disy) (use big in simp_all)
      show "\<forall>k\<in>set [0 .. rows s - 1].
              (getIndex s 0 k = i \<longrightarrow> bounded50 (rd ?cur1 (getIndex s 1 k))) \<and>
              (getIndex s (cols s - 1) k = i \<longrightarrow> bounded50 (rd ?cur1 (getIndex s (cols s - 2) k)))"
      proof (intro ballI conjI impI)
        fix k assume k: "k \<in> set [0 .. rows s - 1]"
        then have k': "0 \<le> k" "k \<le> rows s - 1" by simp_all
        from big have c: "(1::int) \<le> 1" "1 \<le> cols s - 2" "1 \<le> cols s - 2" "cols s - 2 \<le> cols s - 2"
          by simp_all
        show "bounded50 (rd ?cur1 (getIndex s 1 k))" by (rule X[OF c(1,2) k'])
        show "bounded50 (rd ?cur1 (getIndex s (cols s - 2) k))" by (rule X[OF c(3,4) k'])
      qed
      show "(\<exists>k\<in>set [0 .. rows s - 1]. getIndex s 0 k = i \<or> getIndex s (cols s - 1) k = i) \<or>
            bounded50 (rd ?cur1 i)"
      proof (cases "x = 0 \<or> x = cols s - 1")
        case True
        moreover have "y \<in> set [0 .. rows s - 1]" using xy by simp
        ultimately show ?thesis using xy(1) by blast
      next
        case False
        then have "1 \<le> x" "x \<le> cols s - 2" using xy by linarith+
        from X[OF this, of y] xy show ?thesis by simp
      qed
    qed
  qed
qed

lemma substep_all_bounded:
  assumes wf: "0 \<le> cols u" "0 \<le> rows u" "length (current u) = nat (cols u * rows u)"
    and grid: "\<not> reflectiveBoundaries u \<or> (3 \<le> cols u \<and> 3 \<le> rows u)"
  shows "bounded50 (rd (current (substep d u)) i)"
proof -
  define D where "D = mulN (mulN (waveSpeed u) (waveSpeed u)) (mulN d d)"
  define w where "w = u\<lparr>current := fst (sweep u D), previous := snd (sweep u D)\<rparr>"
  have dw: "cols w = cols u" "rows w = rows u" by (simp_all add: w_def)
  have ii: "interiorIndices w = interiorIndices u" by (simp add: interiorIndices_def dw)
  have int: "\<forall>j\<in>set (interiorIndices w). bounded50 (rd (current w) j)"
    unfolding ii by (simp add: w_def sweep_interior_bounded)
  have lw: "length (current w) = nat (cols w * rows w)"
    using length_sweep[of u D] wf(3) by (simp add: w_def)
  show ?thesis
  proof (cases "reflectiveBoundaries u")
    case True
    with grid have big: "3 \<le> cols w" "3 \<le> rows w" by (simp_all add: dw)
    have "current (substep d u) = reflectEdges w"
      using True by (simp add: current_substep w_def D_def)
    then show ?thesis using reflectEdges_bounded[OF big lw int] by simp
  next
    case False
    have "current (substep d u) = absorbEdges w"
      using False by (simp add: current_substep w_def D_def)
    then show ?thesis using absorbEdges_bounded[OF _ _ lw int] wf dw by simp
  qed
qed


text \<open>
  C4, as amended. On a grid with non-negative dimensions whose field has
  \<open>cols * rows\<close> cells, and which has absorbing boundaries or at least 3
  columns and 3 rows, after every completed \<^verbatim>\<open>step\<close> that ran at least one
  sub-step (\<open>waveSpeed * dt\<close> is not NaN) no cell of \<open>current\<close> is greater
  than \<open>50\<close> or less than \<open>-50\<close>: every cell is a number in \<open>[-50, 50]\<close>, or
  NaN, which the clamp's comparisons let through. The state before the
  step is arbitrary, so this holds along every sequence of steps, with
  any sources, walls and impulses in between.
\<close>

theorem amplitude_bound_after_step:
  assumes st: "step time s = Some s'"
    and wf: "0 \<le> cols s" "0 \<le> rows s" "length (current s) = nat (cols s * rows s)"
    and ok: "mulN (waveSpeed s) (dt s) \<noteq> NaN"
    and grid: "\<not> reflectiveBoundaries s \<or> (3 \<le> cols s \<and> 3 \<le> rows s)"
  shows "\<forall>c\<in>set (current s'). c = NaN \<or> (\<exists>r. c = Fin r \<and> - 50 \<le> r \<and> r \<le> 50)"
proof
  fix c assume "c \<in> set (current s')"
  then obtain n where n: "n < length (current s')" "c = current s' ! n"
    by (auto simp: in_set_conv_nth)
  from step_last_substep[OF st ok] obtain u c0 p srcs where
    s': "s' = stabilityGuard (updateEnergy (substep (subDt s) u))"
    and u: "u = (rebuildWallMask s)\<lparr>sources := srcs, current := c0, previous := p\<rparr>"
    and lc: "length c0 = length (current s)" by blast
  have wfu: "0 \<le> cols u" "0 \<le> rows u" "length (current u) = nat (cols u * rows u)"
    "\<not> reflectiveBoundaries u \<or> (3 \<le> cols u \<and> 3 \<le> rows u)"
    using wf grid lc by (simp_all add: u)
  have b: "bounded50 (rd (current (substep (subDt s) u)) (int n))"
    by (rule substep_all_bounded[OF wfu])
  from current_stabilityGuard[of "updateEnergy (substep (subDt s) u)"]
  have "bounded50 (rd (current s') (int n))"
  proof
    assume "current (stabilityGuard (updateEnergy (substep (subDt s) u)))
              = current (updateEnergy (substep (subDt s) u))"
    then show ?thesis using b by (simp add: s'[symmetric])
  next
    assume "current (stabilityGuard (updateEnergy (substep (subDt s) u)))
              = fill0 (current (updateEnergy (substep (subDt s) u)))"
    then have "current s' = fill0 (current (substep (subDt s) u))" by (simp add: s'[symmetric])
    moreover from this n(1) have "inRange (current (substep (subDt s) u)) (int n)"
      by (simp add: inRange_def fill0_def)
    ultimately show ?thesis by (simp add: rd_fill0)
  qed
  then have "bounded50 c" using n by (simp add: rd_nat)
  then show "c = NaN \<or> (\<exists>r. c = Fin r \<and> - 50 \<le> r \<and> r \<le> 50)"
    by (simp add: bounded50_cases)
qed

theorem amplitude_bound_after_step_witness:
  "step (Fin (pi / 2)) sourceGrid = Some (substep (Fin 1) sourceEmitted) \<and>
   Fin (199 / 200) \<in> set (current (substep (Fin 1) sourceEmitted)) \<and>
   (\<exists>r. Fin (199 / 200) = Fin r \<and> - 50 \<le> r \<and> r \<le> 50)"
proof -
  have q: "0 \<le> cols sourceGrid" "0 \<le> rows sourceGrid"
      "length (current sourceGrid) = nat (cols sourceGrid * rows sourceGrid)"
      "mulN (waveSpeed sourceGrid) (dt sourceGrid) \<noteq> NaN"
      "\<not> reflectiveBoundaries sourceGrid \<or> (3 \<le> cols sourceGrid \<and> 3 \<le> rows sourceGrid)"
    by (simp_all add: sourceGrid_def addSource_def grid3x3_def mkSimulation_def)
  have m: "Fin (199 / 200) \<in> set (current (substep (Fin 1) sourceEmitted))"
    by (simp add: sourceGrid_current)
  from amplitude_bound_after_step[OF sourceGrid_step q] m
  have "Fin (199 / 200) = NaN \<or> (\<exists>r. Fin (199 / 200) = Fin r \<and> - 50 \<le> r \<and> r \<le> 50)"
    by blast
  with sourceGrid_step m show ?thesis by simp
qed

lemma constructor_grid2x2: "constructor (Fin 8) (Fin 8) (Fin 4) = Inr grid2x2"
  by (simp add: constructor_def grid2x2_def)

lemma loudGrid_emit:
  "emit (Fin (pi / 2)) (moveSources (rebuildWallMask loudGrid)) = loudEmitted"
  by (simp add: emit_def moveSources_def rebuildWallMask_def loudEmitted_def loudGrid_def
      addSource_def grid2x2_def mkSimulation_def fillMask0_def orbitStep_def
      inject_def advance_def geN_def leN_def numI_def wrN_def rdN_def wr_def rd_def inRange_def
      orZero_def Let_def eval_nat_numeral)

lemma loudGrid_current:
  "current (substep (Fin 1) loudEmitted) = [Fin 100, Fin 100, Fin 100, Fin 100]"
  by code_simp

lemma loudGrid_step: "step (Fin (pi / 2)) loudGrid = Some (substep (Fin 1) loudEmitted)"
proof -
  have p: "waveSpeed loudGrid = Fin (1 / 2)" "dt loudGrid = Fin 1"
    by (simp_all add: loudGrid_def addSource_def grid2x2_def mkSimulation_def)
  have e: "\<not> energyTrailEnabled loudEmitted"
    by (simp add: loudEmitted_def loudGrid_def addSource_def grid2x2_def mkSimulation_def)
  have "stabilityGuard (substep (Fin 1) loudEmitted) = substep (Fin 1) loudEmitted"
    by (rule stabilityGuard_finite) (simp_all add: loudGrid_current)
  then show ?thesis
    unfolding step_once(4)[OF p] loudGrid_emit energy_off_substep[OF e] by simp
qed


text \<open>
  C4 as stated fails on a reflective grid with fewer than 3 rows or
  columns, where no cell is interior and so no cell is ever clamped: the
  2 by 2 grid holds \<open>100\<close> in every cell after one step.
\<close>

theorem amplitude_bound_counterexample:
  "constructor (Fin 8) (Fin 8) (Fin 4) = Inr grid2x2 \<and>
   step (Fin (pi / 2)) loudGrid = Some (substep (Fin 1) loudEmitted) \<and>
   current (substep (Fin 1) loudEmitted) = [Fin 100, Fin 100, Fin 100, Fin 100]"
  by (simp add: constructor_grid2x2 loudGrid_step loudGrid_current)

section \<open>Recovery from a corrupted cell\<close>

lemma nonnegN_sq: "nonnegN (mulN a a)"
  by (cases a) simp_all

lemma nonnegN_mul: "nonnegN a \<Longrightarrow> nonnegN b \<Longrightarrow> nonnegN (mulN a b)"
  by (cases a; cases b) (simp_all add: infTimes_def)

lemma newValue_NaN:
  assumes "nonnegN c" "\<not> isFiniteN a"
  shows "mulN (addN (subN (mulN (Fin 2) a) p) (mulN c (subN A (mulN (Fin 4) a)))) dmp = NaN"
proof -
  have "addN (subN (mulN (Fin 2) a) p) (mulN c (subN A (mulN (Fin 4) a))) = NaN"
    using assms
    by (cases a; cases p; cases A; cases c) (simp_all add: subN_def infTimes_def)
  then show ?thesis by simp
qed

lemma clamp50_NaN [simp]: "clamp50 NaN = NaN"
  by (simp add: clamp50_def gtN_def)

lemma updateCell_prevTracked:
  assumes "prevTracked S cp" "idx \<in> S" "nonnegN c"
  shows "prevTracked S (updateCell c d n m idx cp)"
  unfolding prevTracked_def
proof (intro allI impI)
  fix i
  assume a: "inRange (snd (updateCell c d n m idx cp)) i \<and>
             \<not> isFiniteN (rd (snd (updateCell c d n m idx cp)) i)"
  obtain cur prev where cp: "cp = (cur, prev)" by (cases cp)
  show "i \<in> S \<and> \<not> isFiniteN (rd (fst (updateCell c d n m idx cp)) i)"
  proof (cases "i = idx")
    case False
    have "inRange (snd cp) i"
      using a length_updateCell[of c d n m idx cp, OF refl] by (simp add: inRange_def)
    with a False assms(1) show ?thesis
      by (simp add: updateCell_other prevTracked_def)
  next
    case True
    have r: "inRange prev idx"
      using a length_updateCell[of c d n m idx cp, OF refl] by (simp add: inRange_def True cp)
    show ?thesis
    proof (cases "rdMask m idx \<noteq> 0")
      case True
      then have "rd (snd (updateCell c d n m idx cp)) idx = Fin 0"
        using r by (simp add: updateCell_def cp rd_wr_same)
      with a \<open>i = idx\<close> show ?thesis by simp
    next
      case False
      then have "rd (snd (updateCell c d n m idx cp)) idx = rd cur idx"
        using r by (simp add: updateCell_def cp rd_wr_same Let_def)
      with a \<open>i = idx\<close> have nf: "\<not> isFiniteN (rd cur idx)" by simp
      have "rd (fst (updateCell c d n m idx cp)) idx = NaN"
        using False newValue_NaN[OF assms(3) nf]
        by (simp add: updateCell_def cp rd_wr_same Let_def)
      with \<open>i = idx\<close> assms(2) show ?thesis by simp
    qed
  qed
qed

lemma fold_updateCell_prevTracked:
  "prevTracked S cp \<Longrightarrow> set idxs \<subseteq> S \<Longrightarrow> nonnegN c \<Longrightarrow>
   prevTracked S (fold (updateCell c d n m) idxs cp)"
  by (induction idxs arbitrary: cp) (simp_all add: updateCell_prevTracked)

lemma sweep_prevTracked:
  "prevTracked (set (interiorIndices s)) (current s, previous s) \<Longrightarrow> nonnegN c \<Longrightarrow>
   prevTracked (set (interiorIndices s)) (sweep s c)"
  unfolding sweep_flat by (rule fold_updateCell_prevTracked) simp_all

lemma interior_not_edge:
  assumes "i \<in> set (interiorIndices s)"
  shows "\<forall>k\<in>set [0 .. cols s - 1]. i \<noteq> getIndex s k 0 \<and> i \<noteq> getIndex s k (rows s - 1)"
    and "\<forall>k\<in>set [0 .. rows s - 1]. i \<noteq> getIndex s 0 k \<and> i \<noteq> getIndex s (cols s - 1) k"
proof -
  from assms obtain x y where
    xy: "1 \<le> x" "x \<le> cols s - 2" "1 \<le> y" "y \<le> rows s - 2" "i = getIndex s x y"
    unfolding interiorIndices_iff by blast
  have ne: "getIndex s x y \<noteq> getIndex s x' y'"
    if "0 \<le> x'" "x' < cols s" "x \<noteq> x' \<or> y \<noteq> y'" for x' y'
  proof
    assume e: "getIndex s x y = getIndex s x' y'"
    from getIndex_inj[OF e] xy that show False by simp
  qed
  show "\<forall>k\<in>set [0 .. cols s - 1]. i \<noteq> getIndex s k 0 \<and> i \<noteq> getIndex s k (rows s - 1)"
    unfolding xy(5) by (intro ballI conjI ne) (use xy in simp_all)
  show "\<forall>k\<in>set [0 .. rows s - 1]. i \<noteq> getIndex s 0 k \<and> i \<noteq> getIndex s (cols s - 1) k"
    unfolding xy(5) by (intro ballI conjI ne) (use xy in simp_all)
qed

lemma edges_keep_interior:
  assumes "i \<in> set (interiorIndices s)"
  shows "rd (reflectEdges s) i = rd (current s) i" "rd (absorbEdges s) i = rd (current s) i"
proof -
  note ne = interior_not_edge[OF assms]
  show "rd (reflectEdges s) i = rd (current s) i"
    unfolding reflectEdges_def
    by (simp only: copy_loop_other[OF ne(2)] copy_loop_other[OF ne(1)])
  show "rd (absorbEdges s) i = rd (current s) i"
    unfolding absorbEdges_def rd_fold_wr0 using ne by auto
qed

lemma substep_prevTracked:
  assumes "prevTracked (set (interiorIndices s)) (current s, previous s)"
  shows "prevTracked (set (interiorIndices (substep d s)))
           (current (substep d s), previous (substep d s))"
proof -
  define D where "D = mulN (mulN (waveSpeed s) (waveSpeed s)) (mulN d d)"
  define w where "w = s\<lparr>current := fst (sweep s D), previous := snd (sweep s D)\<rparr>"
  have nn: "nonnegN D" unfolding D_def by (intro nonnegN_mul nonnegN_sq)
  have sw: "prevTracked (set (interiorIndices s)) (sweep s D)"
    by (rule sweep_prevTracked[OF assms nn])
  have ii: "interiorIndices w = interiorIndices s" "interiorIndices (substep d s) = interiorIndices s"
    using substep_frame[of d s] by (auto simp: interiorIndices_def w_def)
  have p: "previous (substep d s) = snd (sweep s D)"
    by (simp add: substep_def Let_def applyBoundaryConditions_def D_def split: prod.splits)
  have c: "current (substep d s) = (if reflectiveBoundaries s then reflectEdges w else absorbEdges w)"
    by (simp add: current_substep w_def D_def)
  have keep: "rd (current (substep d s)) i = rd (fst (sweep s D)) i"
    if "i \<in> set (interiorIndices s)" for i
    using edges_keep_interior[of i w] that unfolding c ii by (simp add: w_def)
  show ?thesis
    unfolding ii p prevTracked_def using sw keep by (auto simp: prevTracked_def)
qed

lemma funpow_prevTracked:
  "prevTracked (set (interiorIndices s)) (current s, previous s) \<Longrightarrow>
   prevTracked (set (interiorIndices ((substep d ^^ m) s)))
     (current ((substep d ^^ m) s), previous ((substep d ^^ m) s))"
  by (induction m) (simp_all add: substep_prevTracked)

lemma stabilityGuard_samples:
  "(\<forall>k. k * guardStride (length (current (stabilityGuard z))) < length (current (stabilityGuard z))
        \<longrightarrow> isFiniteN (current (stabilityGuard z) ! (k * guardStride (length (current (stabilityGuard z)))))) \<and>
   (current (stabilityGuard z) \<noteq> [] \<longrightarrow> isFiniteN (last (current (stabilityGuard z))))"
proof (cases "guardScan (current z) 0 \<or>
                \<not> isFiniteN (rd (current z) (int (length (current z)) - 1))")
  case True
  then have "stabilityGuard z = hardReset z" by (auto simp: stabilityGuard_def)
  then have "current (stabilityGuard z) = replicate (length (current z)) (Fin 0)"
    by (simp add: hardReset_def fill0_def)
  then show ?thesis by simp
next
  case False
  then have 1: "\<not> guardScan (current z) 0"
    and 2: "isFiniteN (rd (current z) (int (length (current z)) - 1))"
    and True: "stabilityGuard z = z"
    by (auto simp: stabilityGuard_def)
  have "isFiniteN (last (current z))" if ne: "current z \<noteq> []"
  proof -
    from ne have pos: "0 < length (current z)" by simp
    then have "int (length (current z)) - 1 = int (length (current z) - 1)" by linarith
    then have "rd (current z) (int (length (current z)) - 1) = current z ! (length (current z) - 1)"
      using pos by (simp only: rd_nat diff_less zero_less_one)
    also have "\<dots> = last (current z)" using ne by (simp add: last_conv_nth)
    finally show ?thesis using 2 by simp
  qed
  with 1 show ?thesis unfolding True guardScan_iff by auto
qed

lemma guardStride_small: "n < 32 \<Longrightarrow> guardStride n = 1"
proof -
  assume n: "n < 32"
  then have "n mod 2 ^ 32 = n" by simp
  moreover have "n div 16 = 0 \<or> n div 16 = 1" using n by linarith
  ultimately show ?thesis by (auto simp: guardStride_def drop_bit_eq_div)
qed

lemma previous_before_loop [simp]:
  "previous (emit time (moveSources (rebuildWallMask s))) = previous s"
  by (simp add: emit_frame moveSources_def rebuildWallMask_def)

lemma all_finite_prevTracked:
  "\<forall>p\<in>set prev. isFiniteN p \<Longrightarrow> prevTracked S (cur, prev)"
  by (auto simp: prevTracked_def rd_def inRange_def nat_less_iff)

lemma step_length_previous:
  assumes "step time s = Some s'"
  shows "length (previous s') = length (previous s)"
proof -
  from step_SomeD[OF assms] obtain m where
    s': "s' = stabilityGuard (updateEnergy
               ((substep (subDt s) ^^ m) (emit time (moveSources (rebuildWallMask s)))))"
    by blast
  have "length (previous ((substep (subDt s) ^^ m) z)) = length (previous z)" for z
    using funpow_substep_frame[where d="subDt s" and m=m and s=z] by auto
  moreover have "length (previous (stabilityGuard z)) = length (previous z)" for z
    by (simp add: stabilityGuard_def hardReset_def fill0_def)
  moreover have "previous (updateEnergy z) = previous z" for z
    by (simp add: updateEnergy_def)
  ultimately show ?thesis unfolding s' by simp
qed


text \<open>
  C2, as amended. After a completed \<^verbatim>\<open>step\<close>, whatever \<open>current\<close> held
  before it (so also after NaN or an infinity was written into one of its
  cells), every cell of \<open>current\<close> that the guard samples is finite: the
  indices that are multiples of the stride, and the last one. If moreover
  the field has fewer than 32 cells, so that the stride is 1 and every
  cell is sampled, and \<open>previous\<close> was finite and as long as \<open>current\<close>, then
  every cell of \<open>current\<close> and of \<open>previous\<close> is finite after the step.
\<close>

theorem guard_samples_finite:
  assumes st: "step time s = Some s'"
  shows "(\<forall>k. k * guardStride (length (current s')) < length (current s') \<longrightarrow>
             isFiniteN (current s' ! (k * guardStride (length (current s'))))) \<and>
         (current s' \<noteq> [] \<longrightarrow> isFiniteN (last (current s'))) \<and>
         (length (current s) < 32 \<and> length (previous s) = length (current s) \<and>
          (\<forall>p\<in>set (previous s). isFiniteN p) \<longrightarrow>
            (\<forall>c\<in>set (current s'). isFiniteN c) \<and> (\<forall>p\<in>set (previous s'). isFiniteN p))"
proof -
  from step_SomeD[OF st] obtain m where
    s': "s' = stabilityGuard (updateEnergy
               ((substep (subDt s) ^^ m) (emit time (moveSources (rebuildWallMask s)))))"
    by blast
  define e where "e = emit time (moveSources (rebuildWallMask s))"
  define f where "f = (substep (subDt s) ^^ m) e"
  define z where "z = updateEnergy f"
  have s'z: "s' = stabilityGuard z" by (simp add: s' z_def f_def e_def)
  note samples = stabilityGuard_samples[of z, folded s'z]
  have small: "(\<forall>c\<in>set (current s'). isFiniteN c) \<and> (\<forall>p\<in>set (previous s'). isFiniteN p)"
    if len: "length (current s) < 32" and eq: "length (previous s) = length (current s)"
      and fin: "\<forall>p\<in>set (previous s). isFiniteN p"
  proof -
    have l': "length (current s') = length (current s)" by (rule step_dims(3)[OF st])
    then have st1: "guardStride (length (current s')) = 1" using len by (simp add: guardStride_small)
    have cur: "\<forall>c\<in>set (current s'). isFiniteN c"
      using samples st1 by (auto simp: in_set_conv_nth)
    obtain c p where fr: "f = e\<lparr>current := c, previous := p\<rparr>"
      "length c = length (current e)" "length p = length (previous e)"
      using funpow_substep_frame[where d="subDt s" and m=m and s=e] unfolding f_def by blast
    have pe: "previous e = previous s" by (simp add: e_def)
    have ce: "length (current e) = length (current s)" by (simp add: e_def)
    have tr: "prevTracked (set (interiorIndices f)) (current f, previous f)"
      unfolding f_def by (rule funpow_prevTracked) (rule all_finite_prevTracked, simp add: pe fin)
    have zf: "current z = current f" "previous z = previous f"
      by (simp_all add: z_def updateEnergy_def)
    have lens: "length (previous f) = length (current f)"
      using fr pe ce eq by simp
    have prev: "\<forall>p\<in>set (previous s'). isFiniteN p"
    proof (cases "stabilityGuard z = z")
      case True
      show ?thesis
      proof
        fix q assume "q \<in> set (previous s')"
        then obtain n where n: "n < length (previous f)" "q = previous f ! n"
          unfolding s'z True zf by (auto simp: in_set_conv_nth)
        have cf: "isFiniteN (current f ! n)"
          using cur n(1) lens unfolding s'z True zf by simp
        show "isFiniteN q"
        proof (rule ccontr)
          assume "\<not> isFiniteN q"
          then have "inRange (previous f) (int n) \<and> \<not> isFiniteN (rd (previous f) (int n))"
            using n by (simp add: rd_nat inRange_def)
          with tr have "\<not> isFiniteN (rd (current f) (int n))"
            unfolding prevTracked_def by auto
          with cf n(1) lens show False by (simp add: rd_nat)
        qed
      qed
    next
      case False
      then have "stabilityGuard z = hardReset z"
        by (simp add: stabilityGuard_def split: if_splits)
      then show ?thesis by (simp add: s'z hardReset_def fill0_def)
    qed
    from cur prev show ?thesis by blast
  qed
  from samples small show ?thesis by blast
qed

theorem guard_samples_finite_witness:
  "\<exists>s'. step (Fin 0) nanGrid = Some s' \<and> isFiniteN (current s' ! 4) \<and>
        isFiniteN (previous s' ! 4)"
proof -
  have p: "waveSpeed nanGrid = Fin (1 / 2)" "dt nanGrid = Fin 1"
    and q: "length (current nanGrid) < 32" "length (previous nanGrid) = length (current nanGrid)"
      "\<forall>p\<in>set (previous nanGrid). isFiniteN p" "length (current nanGrid) = 9"
    by (simp_all add: nanGrid_def grid3x3_def mkSimulation_def)
  from step_once(4)[OF p, of "Fin 0"] obtain s' where s': "step (Fin 0) nanGrid = Some s'"
    by blast
  have lc: "length (current s') = 9" using step_dims(3)[OF s'] q(4) by simp
  have fin: "(\<forall>c\<in>set (current s'). isFiniteN c) \<and> (\<forall>p\<in>set (previous s'). isFiniteN p)"
    using guard_samples_finite[OF s'] q(1-3) by blast
  have lp: "length (previous s') = 9" using step_length_previous[OF s'] q(2,4) by simp
  from fin lc lp s' show ?thesis by (auto simp: all_set_conv_all_nth)
qed

lemma constructor_grid10x5: "constructor (Fin 40) (Fin 20) (Fin 4) = Inr grid10x5"
  by (simp add: constructor_def grid10x5_def)

lemma nan10x5_emit:
  "emit (Fin 0) (moveSources (rebuildWallMask nan10x5)) = nan10x5Emitted"
  by (simp add: emit_def moveSources_def rebuildWallMask_def nan10x5_def nan10x5Emitted_def
      grid10x5_def mkSimulation_def fillMask0_def)

lemma nan10x5_current:
  "current (substep (Fin 1) nan10x5Emitted) =
     [Fin 0, Fin 0, Fin 0, Fin 0, Fin 0, Fin 0, Fin 0, Fin 0, Fin 0, Fin 0,
      Fin 0, Fin 0, Fin 0, Fin 0, Fin 0, Fin 0, Fin 0, Fin 0, Fin 0, Fin 0,
      Fin 0, Fin 0, Fin 0, Fin 0, Fin 0, Fin 0, Fin 0, Fin 0, NaN, Fin 0,
      Fin 0, Fin 0, Fin 0, Fin 0, Fin 0, Fin 0, Fin 0, NaN, NaN, Fin 0,
      Fin 0, Fin 0, Fin 0, Fin 0, Fin 0, Fin 0, Fin 0, Fin 0, Fin 0, Fin 0]"
  by code_simp

lemma nan10x5_guard:
  "stabilityGuard (substep (Fin 1) nan10x5Emitted) = substep (Fin 1) nan10x5Emitted"
  by (simp add: stabilityGuard_def nan10x5_current guardScan.simps guardStride_def
      drop_bit_eq_div rd_def inRange_def)

lemma nan10x5_step: "step (Fin 0) nan10x5 = Some (substep (Fin 1) nan10x5Emitted)"
proof -
  have p: "waveSpeed nan10x5 = Fin (1 / 2)" "dt nan10x5 = Fin 1"
    by (simp_all add: nan10x5_def grid10x5_def mkSimulation_def)
  have e: "\<not> energyTrailEnabled nan10x5Emitted"
    by (simp add: nan10x5Emitted_def nan10x5_def grid10x5_def mkSimulation_def)
  show ?thesis
    unfolding step_once(4)[OF p] nan10x5_emit energy_off_substep[OF e] nan10x5_guard ..
qed


text \<open>
  C2 as stated fails where the values that are not finite stay off the
  sampled indices. On the fresh 10 by 5 grid (50 cells, stride 3, default
  parameters, no sources and no walls) NaN written into cell 38 spreads in
  one step to the cells 28 and 37 and stays in 38; the guard reads the
  indices 0, 3, ..., 48 and 49, finds them finite and resets nothing.
\<close>

theorem guard_misses_counterexample:
  "constructor (Fin 40) (Fin 20) (Fin 4) = Inr grid10x5 \<and>
   step (Fin 0) nan10x5 = Some (substep (Fin 1) nan10x5Emitted) \<and>
   \<not> isFiniteN (current (substep (Fin 1) nan10x5Emitted) ! 38)"
  by (simp add: constructor_grid10x5 nan10x5_step nan10x5_current)

section \<open>Grids without cells\<close>

lemma guardScan_reads:
  "guardScan cur i \<longleftrightarrow> (\<exists>j\<in>set (guardScanReads cur i). \<not> isFiniteN (rd cur j))"
proof (induction cur i rule: guardScan.induct)
  case (1 cur i)
  show ?case
  proof (cases "i < length cur")
    case False
    then show ?thesis
      by (subst guardScan.simps, subst guardScanReads.simps) simp
  next
    case True
    show ?thesis
    proof (cases "isFiniteN (rd cur (int i))")
      case False
      with True show ?thesis
        by (subst guardScan.simps, subst guardScanReads.simps) simp
    next
      case fin: True
      with True "1.IH" show ?thesis
        by (subst guardScan.simps, subst guardScanReads.simps) simp
    qed
  qed
qed

lemma stabilityGuard_by_reads:
  "stabilityGuard s =
     (if \<exists>j\<in>set (stabilityGuardReads (current s)). \<not> isFiniteN (rd (current s) j)
      then hardReset s else s)"
  by (auto simp: stabilityGuard_def stabilityGuardReads_def guardScan_reads)

lemma length_velocity_step_parts [simp]:
  "velocity (rebuildWallMask s) = velocity s"
  "velocity (moveSources s) = velocity s"
  "velocity (emit time s) = velocity s"
  "velocity (updateEnergy s) = velocity s"
  "length (velocity (stabilityGuard s)) = length (velocity s)"
  by (simp_all add: rebuildWallMask_def moveSources_def emit_frame updateEnergy_def
      stabilityGuard_def hardReset_def fill0_def)

lemma length_holdPeaks [simp]: "length (holdPeaks s) = length (energyMap s)"
  by (simp add: holdPeaks_def length_fold_pres)

lemma length_energyMap_step_parts [simp]:
  "energyMap (rebuildWallMask s) = energyMap s"
  "energyMap (moveSources s) = energyMap s"
  "energyMap (emit time s) = energyMap s"
  "length (energyMap (updateEnergy s)) = length (energyMap s)"
  "energyMap (stabilityGuard s) = energyMap s"
  by (simp_all add: rebuildWallMask_def moveSources_def emit_frame updateEnergy_def
      stabilityGuard_def hardReset_def)

lemma length_markWalls [simp]: "length (markWalls s) = length (wallMask s)"
proof -
  have "length (markWalls s) = length (fillMask0 (wallMask s))"
    unfolding markWalls_def by (intro length_fold_pres) simp
  then show ?thesis by (simp add: fillMask0_def)
qed

lemma length_wallMask_step_parts [simp]:
  "length (wallMask (rebuildWallMask s)) = length (wallMask s)"
  "wallMask (moveSources s) = wallMask s"
  "wallMask (emit time s) = wallMask s"
  "wallMask (updateEnergy s) = wallMask s"
  "wallMask (stabilityGuard s) = wallMask s"
  by (simp_all add: rebuildWallMask_def moveSources_def emit_frame updateEnergy_def
      stabilityGuard_def hardReset_def fillMask0_def)

lemma step_lengths:
  assumes "step time s = Some s'"
  shows "length (current s') = length (current s)" "length (previous s') = length (previous s)"
    "length (velocity s') = length (velocity s)" "length (energyMap s') = length (energyMap s)"
    "length (wallMask s') = length (wallMask s)"
proof -
  show "length (current s') = length (current s)" by (rule step_dims(3)[OF assms])
  show "length (previous s') = length (previous s)" by (rule step_length_previous[OF assms])
  from step_SomeD[OF assms] obtain m where
    s': "s' = stabilityGuard (updateEnergy
               ((substep (subDt s) ^^ m) (emit time (moveSources (rebuildWallMask s)))))"
    by blast
  have fr: "velocity ((substep (subDt s) ^^ m) z) = velocity z"
    "energyMap ((substep (subDt s) ^^ m) z) = energyMap z"
    "wallMask ((substep (subDt s) ^^ m) z) = wallMask z" for z
    using funpow_substep_frame[where d="subDt s" and m=m and s=z] by auto
  show "length (velocity s') = length (velocity s)"
    "length (energyMap s') = length (energyMap s)"
    "length (wallMask s') = length (wallMask s)"
    unfolding s' by (simp_all add: fr)
qed

lemma length_impulseCell [simp]:
  "length (impulseCell s cx cy r sigma2 amp dy dx cur) = length cur"
  by (simp add: impulseCell_def Let_def)

lemma applyImpulse_degenerate:
  assumes "current s = []"
  shows "applyImpulse px py radius amp s =
           (if ceilN (dbl (divN radius (cellSize s))) = PInf \<or>
               (\<exists>rr. ceilN (dbl (divN radius (cellSize s))) = Fin rr \<and> 2 ^ 53 \<le> rr)
            then None else Some s)"
proof -
  have "length (fold (\<lambda>dy. fold (impulseCell s cx cy r sigma2 amp dy) xs) ys (current s)) = 0"
    for cx cy r sigma2 xs ys
    using assms length_fold_pres[of "\<lambda>dy. fold (impulseCell s cx cy r sigma2 amp dy) xs" ys "current s"]
    by (simp add: length_fold_pres)
  then have e: "fold (\<lambda>dy. fold (impulseCell s cx cy r sigma2 amp dy) xs) ys (current s) = []"
    for cx cy r sigma2 xs ys by simp
  have "s\<lparr>current := []\<rparr> = s" using assms by simp
  then show ?thesis
    by (cases "ceilN (dbl (divN radius (cellSize s)))") (simp_all add: applyImpulse_def Let_def e)
qed

lemma rd_fold_wr_zero:
  "rd (fold (\<lambda>i b. wr b i (Fin 0)) xs b) j =
     (if inRange b j \<and> j \<in> set xs then Fin 0 else rd b j)"
  by (induction xs arbitrary: b) (auto simp: rd_wr)

lemma sampleLine_degenerate:
  assumes "cols s = 0 \<or> rows s = 0"
  shows "fst (sampleLine px1 py1 px2 py2 n s) = replicate n (Fin 0)"
proof -
  define samples where "samples = (if length (sampleBuffer s) < n
                     then replicate n (Fin 0) else sampleBuffer s)"
  have ls: "n \<le> length samples" by (simp add: samples_def)
  have z: "sampleAt s px1 py1 dx dy inv i = Fin 0" for dx dy inv i
    using assms by (auto simp: sampleAt_def Let_def)
  define filled where "filled = fold (\<lambda>i b. wr b i (Fin 0)) [0 .. int n - 1] samples"
  have f: "fst (sampleLine px1 py1 px2 py2 n s) = take n filled"
    by (simp add: sampleLine_def Let_def z samples_def filled_def)
  have lf: "length filled = length samples"
    by (simp add: filled_def length_fold_pres)
  have "take n filled ! k = Fin 0" if "k < n" for k
  proof -
    have "inRange samples (int k)" "int k \<in> set [0 .. int n - 1]"
      using that ls by (simp_all add: inRange_def)
    then have "rd filled (int k) = Fin 0"
      unfolding filled_def rd_fold_wr_zero by simp
    moreover have "k < length filled" using that ls lf by simp
    ultimately show ?thesis using that by (simp add: rd_nat)
  qed
  then show ?thesis
    unfolding f using ls lf by (intro nth_equalityI) simp_all
qed

lemma floorN_sign: "a \<noteq> NaN \<Longrightarrow> ltN (floorN a) (Fin 0) \<or> geN (floorN a) (numI 0)"
proof (cases a)
  case (Fin r)
  define z :: real where "z = of_int \<lfloor>r\<rfloor>"
  have "ltN (Fin z) (Fin 0) \<or> geN (Fin z) (Fin 0)"
    by (cases "z < 0") (auto simp: geN_def leN_def)
  then show ?thesis by (simp add: Fin z_def numI_def)
qed (simp_all add: geN_def leN_def numI_def)

lemma getValue_degenerate:
  assumes "cols s = 0 \<or> rows s = 0" "current s = []"
  shows "getValue s x y = Fin 0 \<or> getValue s x y = NaN"
    and "divN x (cellSize s) \<noteq> NaN \<Longrightarrow> divN y (cellSize s) \<noteq> NaN \<Longrightarrow> getValue s x y = Fin 0"
proof -
  have r: "rdN [] k = NaN" for k by (auto simp: rdN_def rd_def inRange_def split: option.split)
  show "getValue s x y = Fin 0 \<or> getValue s x y = NaN"
    using assms(2) by (simp add: getValue_def Let_def r)
  note t = floorN_sign
  assume "divN x (cellSize s) \<noteq> NaN" "divN y (cellSize s) \<noteq> NaN"
  then show "getValue s x y = Fin 0"
    using assms(1) t[of "divN x (cellSize s)"] t[of "divN y (cellSize s)"]
    by (auto simp: getValue_def Let_def)
qed

lemma getEnergyValue_degenerate:
  assumes "cols s = 0 \<or> rows s = 0" "energyMap s = []"
  shows "getEnergyValue s x y = Fin 0 \<or> getEnergyValue s x y = NaN"
    and "divN x (cellSize s) \<noteq> NaN \<Longrightarrow> divN y (cellSize s) \<noteq> NaN \<Longrightarrow>
         getEnergyValue s x y = Fin 0"
proof -
  have r: "rdN [] k = NaN" for k by (auto simp: rdN_def rd_def inRange_def split: option.split)
  show "getEnergyValue s x y = Fin 0 \<or> getEnergyValue s x y = NaN"
    using assms(2) by (simp add: getEnergyValue_def Let_def r)
  note t = floorN_sign
  assume "divN x (cellSize s) \<noteq> NaN" "divN y (cellSize s) \<noteq> NaN"
  then show "getEnergyValue s x y = Fin 0"
    using assms(1) t[of "divN x (cellSize s)"] t[of "divN y (cellSize s)"]
    by (auto simp: getEnergyValue_def Let_def)
qed

lemma step_degenerate:
  assumes "emptyField s" "step time s = Some s'"
  shows "emptyField s'"
  using step_lengths[OF assms(2)] assms(1) by (simp add: emptyField_def)


text \<open>
  C8, as amended. On a degenerate grid (\<open>cols = 0\<close> or \<open>rows = 0\<close>, all
  arrays empty) the operations raise no error and leave the field empty,
  within these limits. \<^verbatim>\<open>step\<close> returns when its number of sub-steps is a
  number of at most \<open>2^53\<close> and \<open>cols\<close> and \<open>rows\<close> are at most \<open>2^53\<close>.
  \<^verbatim>\<open>addSource\<close>, \<^verbatim>\<open>addWall\<close> and \<^verbatim>\<open>clear\<close> keep the arrays empty.
  \<^verbatim>\<open>applyImpulse\<close> returns the state unchanged when its radius in cells,
  \<open>ceil(radius / cellSize)\<close>, is neither \<open>Infinity\<close> nor a number of \<open>2^53\<close>
  or more; otherwise its loops do not end. \<^verbatim>\<open>getValue\<close> and
  \<^verbatim>\<open>getEnergyValue\<close> give \<open>0\<close> (or \<^verbatim>\<open>undefined\<close>, here NaN, for a NaN
  coordinate). \<^verbatim>\<open>sampleLine\<close> gives \<open>numSamples\<close> zeros when \<open>numSamples\<close>
  is within the sample buffer, so that no array is allocated. On any grid
  \<open>g\<close> with a number of sub-steps of at most \<open>2^53\<close> and \<open>cols\<close> and \<open>rows\<close>
  of at most \<open>2^53\<close>, a zero-length wall and a source anywhere do not keep
  the next \<^verbatim>\<open>step\<close> from returning. Indexing outside the arrays is not
  excluded: it happens, and a typed array answers it with \<^verbatim>\<open>undefined\<close> or
  ignores it.
\<close>

theorem degenerate_grid_noop:
  assumes deg: "cols s = 0 \<or> rows s = 0" and empty: "emptyField s"
  shows "(\<forall>k. subSteps s = Fin (real k) \<and> k \<le> 2 ^ 53 \<and>
              cols s \<le> 2 ^ 53 \<and> rows s \<le> 2 ^ 53 \<longrightarrow>
              (\<exists>s'. step time s = Some s' \<and> emptyField s')) \<and>
         emptyField (addSource x y freq amp s) \<and>
         emptyField (addWall x1 y1 x2 y2 sl s) \<and>
         emptyField (clear s) \<and>
         applyImpulse x y radius amp s =
           (if ceilN (dbl (divN radius (cellSize s))) = PInf \<or>
               (\<exists>rr. ceilN (dbl (divN radius (cellSize s))) = Fin rr \<and> 2 ^ 53 \<le> rr)
            then None else Some s) \<and>
         (getValue s x y = Fin 0 \<or> getValue s x y = NaN) \<and>
         (getEnergyValue s x y = Fin 0 \<or> getEnergyValue s x y = NaN) \<and>
         (divN x (cellSize s) \<noteq> NaN \<and> divN y (cellSize s) \<noteq> NaN \<longrightarrow>
            getValue s x y = Fin 0 \<and> getEnergyValue s x y = Fin 0) \<and>
         (n \<le> length (sampleBuffer s) \<longrightarrow>
            fst (sampleLine x1 y1 x2 y2 n s) = replicate n (Fin 0) \<and>
            emptyField (snd (sampleLine x1 y1 x2 y2 n s))) \<and>
         (\<forall>j. subSteps g = Fin (real j) \<and> j \<le> 2 ^ 53 \<and>
              cols g \<le> 2 ^ 53 \<and> rows g \<le> 2 ^ 53 \<longrightarrow>
              (\<exists>g'. step time (addSource x y freq amp (addWall x1 y1 x1 y1 sl g)) = Some g'))"
proof -
  have 1: "\<forall>k. subSteps s = Fin (real k) \<and> k \<le> 2 ^ 53 \<and>
              cols s \<le> 2 ^ 53 \<and> rows s \<le> 2 ^ 53 \<longrightarrow>
              (\<exists>s'. step time s = Some s' \<and> emptyField s')"
  proof (intro allI impI)
    fix k
    assume "subSteps s = Fin (real k) \<and> k \<le> 2 ^ 53 \<and> cols s \<le> 2 ^ 53 \<and> rows s \<le> 2 ^ 53"
    then have "subSteps s = Fin (real k)" "k \<le> 2 ^ 53" by simp_all
    from step_counted[OF this, of time] obtain s' where s': "step time s = Some s'" by blast
    with step_degenerate[OF empty s'] show "\<exists>s'. step time s = Some s' \<and> emptyField s'"
      by blast
  qed
  have 2: "emptyField (addSource x y freq amp s)" "emptyField (addWall x1 y1 x2 y2 sl s)"
    "emptyField (clear s)" "emptyField (snd (sampleLine x1 y1 x2 y2 n s))"
    using empty
    by (simp_all add: emptyField_def addSource_def addWall_def clear_def fill0_def fillMask0_def
        sampleLine_def Let_def)
  have c: "current s = []" "energyMap s = []" using empty by (simp_all add: emptyField_def)
  have 3: "(getValue s x y = Fin 0 \<or> getValue s x y = NaN)"
    "(getEnergyValue s x y = Fin 0 \<or> getEnergyValue s x y = NaN)"
    "divN x (cellSize s) \<noteq> NaN \<and> divN y (cellSize s) \<noteq> NaN \<longrightarrow>
       getValue s x y = Fin 0 \<and> getEnergyValue s x y = Fin 0"
    using getValue_degenerate[OF deg c(1)] getEnergyValue_degenerate[OF deg c(2)] by blast+
  let ?g = "addSource x y freq amp (addWall x1 y1 x1 y1 sl g)"
  have sg: "subSteps ?g = subSteps g"
    by (simp add: subSteps_def addSource_def addWall_def)
  have 4: "\<forall>j. subSteps g = Fin (real j) \<and> j \<le> 2 ^ 53 \<and>
              cols g \<le> 2 ^ 53 \<and> rows g \<le> 2 ^ 53 \<longrightarrow>
              (\<exists>g'. step time ?g = Some g')"
  proof (intro allI impI)
    fix j
    assume "subSteps g = Fin (real j) \<and> j \<le> 2 ^ 53 \<and> cols g \<le> 2 ^ 53 \<and> rows g \<le> 2 ^ 53"
    then have "subSteps ?g = Fin (real j)" "j \<le> 2 ^ 53" using sg by simp_all
    from step_counted[OF this, of time] show "\<exists>g'. step time ?g = Some g'" by blast
  qed
  have 5: "n \<le> length (sampleBuffer s) \<longrightarrow>
            fst (sampleLine x1 y1 x2 y2 n s) = replicate n (Fin 0) \<and>
            emptyField (snd (sampleLine x1 y1 x2 y2 n s))"
    using sampleLine_degenerate[OF deg, of x1 y1 x2 y2 n] 2(4) by simp
  from 1 2(1,2,3) applyImpulse_degenerate[OF c(1), of x y radius amp] 3 5 4
  show ?thesis by (intro conjI)
qed

theorem degenerate_grid_noop_witness:
  "(\<exists>s'. step (Fin 0) grid0x0 = Some s' \<and> emptyField s') \<and>
   getValue grid0x0 (Fin 1) (Fin 1) = Fin 0 \<and>
   fst (sampleLine (Fin 0) (Fin 0) (Fin 8) (Fin 8) 2 grid0x0) = [Fin 0, Fin 0] \<and>
   applyImpulse (Fin 1) (Fin 1) (Fin 8) (Fin 3) grid0x0 = Some grid0x0 \<and>
   (\<exists>g'. step (Fin 0) (addSource (Fin 1) (Fin 1) (Fin 1) (Fin 3)
                         (addWall (Fin 0) (Fin 0) (Fin 0) (Fin 0) None grid3x3)) = Some g')"
proof -
  have w: "waveSpeed grid0x0 = Fin (1 / 2)" "dt grid0x0 = Fin 1"
    "waveSpeed grid3x3 = Fin (1 / 2)" "dt grid3x3 = Fin 1"
    by (simp_all add: grid0x0_def grid3x3_def mkSimulation_def)
  have p: "cols grid0x0 = 0 \<or> rows grid0x0 = 0" "emptyField grid0x0"
    and h: "subSteps grid0x0 = Fin (real 1) \<and> (1::nat) \<le> 2 ^ 53 \<and>
            cols grid0x0 \<le> 2 ^ 53 \<and> rows grid0x0 \<le> 2 ^ 53"
      "2 \<le> length (sampleBuffer grid0x0)"
      "subSteps grid3x3 = Fin (real 1) \<and> (1::nat) \<le> 2 ^ 53 \<and>
       cols grid3x3 \<le> 2 ^ 53 \<and> rows grid3x3 \<le> 2 ^ 53"
    and cs: "cellSize grid0x0 = Fin 4"
    using step_once(1)[OF w(1,2)] step_once(1)[OF w(3,4)]
    by (simp_all add: grid0x0_def grid3x3_def mkSimulation_def emptyField_def)
  note t = degenerate_grid_noop[OF p, of "Fin 0" "Fin 1" "Fin 1" "Fin 1" "Fin 3" "Fin 0" "Fin 0"
      "Fin 8" "Fin 8" None "Fin 8" 2 grid3x3]
  from t h(1) have 1: "\<exists>s'. step (Fin 0) grid0x0 = Some s' \<and> emptyField s'" by blast
  from t h(3) have 2: "\<exists>g'. step (Fin 0) (addSource (Fin 1) (Fin 1) (Fin 1) (Fin 3)
                         (addWall (Fin 0) (Fin 0) (Fin 0) (Fin 0) None grid3x3)) = Some g'"
    by blast
  from t h(2) have "fst (sampleLine (Fin 0) (Fin 0) (Fin 8) (Fin 8) 2 grid0x0) = replicate 2 (Fin 0)"
    by blast
  then have 3: "fst (sampleLine (Fin 0) (Fin 0) (Fin 8) (Fin 8) 2 grid0x0) = [Fin 0, Fin 0]"
    by (simp add: eval_nat_numeral)
  from t have "divN (Fin 1) (cellSize grid0x0) \<noteq> NaN \<and> divN (Fin 1) (cellSize grid0x0) \<noteq> NaN \<longrightarrow>
            getValue grid0x0 (Fin 1) (Fin 1) = Fin 0 \<and> getEnergyValue grid0x0 (Fin 1) (Fin 1) = Fin 0"
    by blast
  then have 4: "getValue grid0x0 (Fin 1) (Fin 1) = Fin 0" by (simp add: cs)
  from t have "applyImpulse (Fin 1) (Fin 1) (Fin 8) (Fin 3) grid0x0 =
           (if ceilN (dbl (divN (Fin 8) (cellSize grid0x0))) = PInf \<or>
               (\<exists>rr. ceilN (dbl (divN (Fin 8) (cellSize grid0x0))) = Fin rr \<and> 2 ^ 53 \<le> rr)
            then None else Some grid0x0)"
    by blast
  then have 5: "applyImpulse (Fin 1) (Fin 1) (Fin 8) (Fin 3) grid0x0 = Some grid0x0"
    by (simp add: cs)
  from 1 4 3 5 2 show ?thesis by (intro conjI)
qed

lemma constructor_grid0x0: "constructor (Fin 0) (Fin 0) (Fin 4) = Inr grid0x0"
  by (simp add: constructor_def grid0x0_def)

lemma grid0x0_emit:
  "emit (Fin 0) (moveSources (rebuildWallMask grid0x0)) = grid0x0Emitted"
  by (simp add: emit_def moveSources_def rebuildWallMask_def grid0x0_def grid0x0Emitted_def
      mkSimulation_def fillMask0_def)

lemma grid0x0_before_guard: "current (substep (Fin 1) grid0x0Emitted) = []"
proof -
  have "length (current (substep (Fin 1) grid0x0Emitted)) = length (current grid0x0Emitted)"
    using substep_frame[of "Fin 1" grid0x0Emitted] by auto
  then show ?thesis by (simp add: grid0x0Emitted_def grid0x0_def mkSimulation_def)
qed

lemma stabilityGuardReads_empty: "stabilityGuardReads [] = [- 1]"
  by (simp add: stabilityGuardReads_def guardScanReads.simps guardScan.simps)

text \<open>
  C8 as stated fails in one point: on a degenerate grid \<^verbatim>\<open>step\<close> does index
  outside the arrays. The guard, after a sampling loop that does not run,
  reads \<open>cur[len - 1]\<close>, which is index \<open>-1\<close> of an empty array.
\<close>

theorem degenerate_guard_reads_outside:
  "constructor (Fin 0) (Fin 0) (Fin 4) = Inr grid0x0 \<and> cols grid0x0 = 0 \<and>
   step (Fin 0) grid0x0 =
     Some (stabilityGuard (updateEnergy (substep (Fin 1) grid0x0Emitted))) \<and>
   stabilityGuardReads (current (updateEnergy (substep (Fin 1) grid0x0Emitted))) = [- 1] \<and>
   \<not> inRange (current (updateEnergy (substep (Fin 1) grid0x0Emitted))) (- 1)"
proof -
  have p: "waveSpeed grid0x0 = Fin (1 / 2)" "dt grid0x0 = Fin 1" and c: "cols grid0x0 = 0"
    by (simp_all add: grid0x0_def mkSimulation_def)
  from step_once(4)[OF p, of "Fin 0"] c constructor_grid0x0 show ?thesis
    by (simp add: grid0x0_emit grid0x0_before_guard stabilityGuardReads_empty inRange_def)
qed

end
